theory Spec2Isabelle
  imports Main "HOL-Library.Sublist"
begin

section \<open>Model references and store paths (server/modelpath.go)\<close>

text \<open>
  A shallow embedding of \<^verbatim>\<open>server/modelpath.go\<close>: the reference parser
  \<^verbatim>\<open>ParseModelPath\<close>, the display names, and the path resolvers
  \<^verbatim>\<open>GetManifestPath\<close> and \<^verbatim>\<open>GetBlobsPath\<close>. Go strings are byte
  strings and are modelled as \<^typ>\<open>string\<close>. The functions of Go's standard library
  that the file calls (\<^verbatim>\<open>strings\<close>, \<^verbatim>\<open>path/filepath\<close>, \<^verbatim>\<open>os\<close>,
  \<^verbatim>\<open>regexp\<close>) are modelled after their documented behaviour.
\<close>

subsection \<open>Package strings\<close>

text \<open>
  \<^verbatim>\<open>strings.Index(s, sep)\<close>: the index of the first instance of \<open>sep\<close> in \<open>s\<close>,
  \<open>None\<close> for Go's \<open>-1\<close>.
\<close>

fun Index :: "string \<Rightarrow> string \<Rightarrow> nat option" where
  "Index [] sep = (if sep = [] then Some 0 else None)"
| "Index (c # cs) sep =
     (if prefix sep (c # cs) then Some 0 else map_option Suc (Index cs sep))"

text \<open>
  \<^verbatim>\<open>strings.Cut(s, sep)\<close>: slices \<open>s\<close> around the first instance of \<open>sep\<close>;
  when \<open>sep\<close> does not occur the result is \<open>(s, "", false)\<close>.
\<close>

definition Cut :: "string \<Rightarrow> string \<Rightarrow> string \<times> string \<times> bool" where
  "Cut s sep =
     (case Index s sep of
        Some i \<Rightarrow> (take i s, drop (i + length sep) s, True)
      | None \<Rightarrow> (s, [], False))"

text \<open>
  \<^verbatim>\<open>strings.ReplaceAll(s, old, new)\<close> for a one-byte \<open>old\<close>, which is what both
  call sites pass (\<^verbatim>\<open>string(os.PathSeparator)\<close> and \<^verbatim>\<open>":"\<close>).
\<close>

definition ReplaceAll :: "string \<Rightarrow> char \<Rightarrow> string \<Rightarrow> string" where
  "ReplaceAll s old new = concat (map (\<lambda>c. if c = old then new else [c]) s)"

text \<open>
  \<^verbatim>\<open>strings.Split(s, sep)\<close> for a one-byte \<open>sep\<close>: all substrings between the
  separators. The result is never empty: a string without the separator (the empty one
  too) gives one segment.
\<close>

fun Split :: "string \<Rightarrow> char \<Rightarrow> string list" where
  "Split [] sep = [[]]"
| "Split (c # cs) sep =
     (if c = sep then [] # Split cs sep
      else (case Split cs sep of
              [] \<Rightarrow> [[c]]
            | p # ps \<Rightarrow> (c # p) # ps))"

text \<open>\<^verbatim>\<open>strings.TrimPrefix(s, prefix)\<close>.\<close>

definition TrimPrefix :: "string \<Rightarrow> string \<Rightarrow> string" where
  "TrimPrefix s p = (if prefix p s then drop (length p) s else s)"

text \<open>\<^verbatim>\<open>strings.Join(elems, sep)\<close>.\<close>

fun StringsJoin :: "string list \<Rightarrow> string \<Rightarrow> string" where
  "StringsJoin [] sep = []"
| "StringsJoin [x] sep = x"
| "StringsJoin (x # y # ys) sep = x @ sep @ StringsJoin (y # ys) sep"

subsection \<open>Outcomes\<close>

text \<open>
  The errors the file returns: its own sentinel \<^verbatim>\<open>ErrInvalidDigestFormat\<close>,
  \<^verbatim>\<open>fs.ErrNotExist\<close>, an error of \<^verbatim>\<open>envconfig.Models()\<close> passed on as it is
  (with its message; package \<^verbatim>\<open>envconfig\<close> is imported by this one, so its errors
  are none of the sentinels declared here), and an error of \<^verbatim>\<open>os.MkdirAll\<close>
  wrapped by \<^verbatim>\<open>fmt.Errorf("%w: ensure path elements are traversable", err)\<close>.
\<close>

datatype errno = ENOTDIR | ENOENT | EEXIST

datatype error =
    ErrInvalidDigestFormat
  | ErrNotExist
  | ModelsError string
  | NotTraversable errno

text \<open>
  A call returns a value, returns an error, or panics (an index or a slice bound out of
  range).
\<close>

datatype 'a outcome = Return 'a | Error error | Panic

text \<open>\<open>xs[i]\<close> and \<open>s[:n]\<close> of Go, which panic out of range.\<close>

definition index_at :: "'a list \<Rightarrow> nat \<Rightarrow> 'a option" where
  "index_at xs i = (if i < length xs then Some (xs ! i) else None)"

definition slice_to :: "string \<Rightarrow> nat \<Rightarrow> string option" where
  "slice_to s n = (if n \<le> length s then Some (take n s) else None)"

subsection \<open>The model identity and the reference parser\<close>

record ModelPath =
  ProtocolScheme :: string
  Registry :: string
  Namespace :: string
  Repository :: string
  Tag :: string

definition DefaultRegistry :: string where
  "DefaultRegistry = ''registry.goobla.ai''"

definition DefaultNamespace :: string where
  "DefaultNamespace = ''library''"

definition DefaultTag :: string where
  "DefaultTag = ''latest''"

definition DefaultProtocolScheme :: string where
  "DefaultProtocolScheme = ''https''"

text \<open>
  \<^verbatim>\<open>os.PathSeparator\<close> is a constant of the platform the program is built for:
  \<open>/\<close> on Unix-like systems, the backslash on Windows.
\<close>

datatype goos = Unix | Windows

definition PathSeparator :: "goos \<Rightarrow> char" where
  "PathSeparator os = (case os of Unix \<Rightarrow> CHR ''/'' | Windows \<Rightarrow> CHR 0x5C)"

text \<open>
  The \<^verbatim>\<open>switch len(parts)\<close> of \<^verbatim>\<open>ParseModelPath\<close>, with every
  \<^verbatim>\<open>parts[i]\<close> a checked access.
\<close>

definition assign_parts :: "ModelPath \<Rightarrow> string list \<Rightarrow> ModelPath option" where
  "assign_parts mp parts =
     (if length parts = 3 then
        (case (index_at parts 0, index_at parts 1, index_at parts 2) of
           (Some a, Some b, Some c) \<Rightarrow>
             Some (mp\<lparr>Registry := a, Namespace := b, Repository := c\<rparr>)
         | _ \<Rightarrow> None)
      else if length parts = 2 then
        (case (index_at parts 0, index_at parts 1) of
           (Some a, Some b) \<Rightarrow> Some (mp\<lparr>Namespace := a, Repository := b\<rparr>)
         | _ \<Rightarrow> None)
      else if length parts = 1 then
        (case index_at parts 0 of
           Some a \<Rightarrow> Some (mp\<lparr>Repository := a\<rparr>)
         | None \<Rightarrow> None)
      else Some mp)"

definition ParseModelPath :: "goos \<Rightarrow> string \<Rightarrow> ModelPath outcome" where
  "ParseModelPath os name =
     (let mp = \<lparr>ProtocolScheme = DefaultProtocolScheme,
                Registry = DefaultRegistry,
                Namespace = DefaultNamespace,
                Repository = [],
                Tag = DefaultTag\<rparr>;
          (before, after, found) = Cut name ''://'';
          mp = (if found then mp\<lparr>ProtocolScheme := before\<rparr> else mp);
          name = (if found then after else name);
          name = ReplaceAll name (PathSeparator os) ''/'';
          parts = Split name CHR ''/''
      in case assign_parts mp parts of
           None \<Rightarrow> Panic
         | Some mp \<Rightarrow>
             (let (repo, tag, found) = Cut (Repository mp) '':''
              in Return (if found then mp\<lparr>Repository := repo, Tag := tag\<rparr> else mp)))"

definition GetNamespaceRepository :: "ModelPath \<Rightarrow> string" where
  "GetNamespaceRepository mp = Namespace mp @ ''/'' @ Repository mp"

definition GetFullTagname :: "ModelPath \<Rightarrow> string" where
  "GetFullTagname mp =
     Registry mp @ ''/'' @ Namespace mp @ ''/'' @ Repository mp @ '':'' @ Tag mp"

definition GetShortTagname :: "ModelPath \<Rightarrow> string" where
  "GetShortTagname mp =
     (if Registry mp = DefaultRegistry then
        (if Namespace mp = DefaultNamespace then Repository mp @ '':'' @ Tag mp
         else Namespace mp @ ''/'' @ Repository mp @ '':'' @ Tag mp)
      else Registry mp @ ''/'' @ Namespace mp @ ''/'' @ Repository mp @ '':'' @ Tag mp)"

subsection \<open>Package path/filepath\<close>

text \<open>
  The path functions are those of Unix-like systems (separator \<open>/\<close>, no volume names).
  \<^verbatim>\<open>filepath.Clean\<close> is Go's lexical clean-up, given here on the
  \<open>/\<close>-separated elements of the path instead of its bytes: an empty element and
  \<open>.\<close> are dropped; \<open>..\<close> removes the element before it, is dropped at the root, and
  is kept at the start of a path that is not rooted; \<open>dotdot\<close> counts the leading
  \<open>..\<close> elements that can no longer be removed. The result of cleaning the empty
  path is \<open>.\<close>.
\<close>

fun clean_step :: "bool \<Rightarrow> string list \<times> nat \<Rightarrow> string \<Rightarrow> string list \<times> nat" where
  "clean_step rooted (out, dotdot) c =
     (if c = [] \<or> c = ''.'' then (out, dotdot)
      else if c = ''..'' then
        (if dotdot < length out then (butlast out, dotdot)
         else if \<not> rooted then (out @ [''..''], Suc dotdot)
         else (out, dotdot))
      else (out @ [c], dotdot))"

definition render :: "bool \<Rightarrow> string list \<Rightarrow> string" where
  "render rooted out =
     (if rooted then CHR ''/'' # StringsJoin out ''/''
      else if out = [] then ''.''
      else StringsJoin out ''/'')"

definition Clean :: "string \<Rightarrow> string" where
  "Clean path =
     (if path = [] then ''.''
      else
        (let rooted = (hd path = CHR ''/'');
             (out, dotdot) = foldl (clean_step rooted) ([], 0) (Split path CHR ''/'')
         in render rooted out))"

text \<open>
  \<^verbatim>\<open>filepath.Join(elem...)\<close>: the elements from the first non-empty one on, joined
  with the separator and cleaned; the empty string when all are empty.
\<close>

definition Join :: "string list \<Rightarrow> string" where
  "Join elem =
     (case dropWhile (\<lambda>e. e = []) elem of
        [] \<Rightarrow> []
      | e # es \<Rightarrow> Clean (StringsJoin (e # es) ''/''))"

text \<open>
  \<^verbatim>\<open>filepath.Dir(path)\<close>: all but the last element of the path, that is the path
  up to and including its last separator, cleaned.
\<close>

definition Dir :: "string \<Rightarrow> string" where
  "Dir path = Clean (rev (dropWhile (\<lambda>c. c \<noteq> CHR ''/'') (rev path)))"

subsection \<open>Package os: the file system\<close>

text \<open>
  The file system is a map from paths to nodes, without links and without permissions,
  so that the one way a directory cannot be created is that an element of its path is a
  file. The world also records the calls made to package \<^verbatim>\<open>os\<close>, in order.
\<close>

datatype node = File | Directory

datatype fs_call = MkdirAllCall string | StatCall string

record world =
  files :: "string \<Rightarrow> node option"
  trace :: "fs_call list"

text \<open>
  The parent that \<^verbatim>\<open>os.MkdirAll\<close> creates first: the path without its trailing
  separators and its last element; \<open>None\<close> when that is the root or the working
  directory.
\<close>

definition parent_of :: "string \<Rightarrow> string option" where
  "parent_of path =
     (let i = rev (dropWhile (\<lambda>c. c = CHR ''/'') (rev path));
          j = rev (dropWhile (\<lambda>c. c \<noteq> CHR ''/'') (rev i))
      in if 1 < length j then Some (butlast j) else None)"

definition Mkdir :: "(string \<Rightarrow> node option) \<Rightarrow> string \<Rightarrow> errno + (string \<Rightarrow> node option)" where
  "Mkdir fs path =
     (if path = [] then Inl ENOENT
      else
        (case fs path of
           Some n \<Rightarrow> Inl EEXIST
         | None \<Rightarrow>
             (case parent_of path of
                None \<Rightarrow> Inr (fs(path \<mapsto> Directory))
              | Some p \<Rightarrow>
                  (case fs p of
                     Some Directory \<Rightarrow> Inr (fs(path \<mapsto> Directory))
                   | Some File \<Rightarrow> Inl ENOTDIR
                   | None \<Rightarrow> Inl ENOENT))))"

text \<open>
  \<^verbatim>\<open>os.MkdirAll(path, perm)\<close>: nothing to do when the path is a directory, an
  error when it is a file; otherwise the parent is created first, then the directory
  itself.
\<close>

function MkdirAll_files ::
  "(string \<Rightarrow> node option) \<Rightarrow> string \<Rightarrow> errno + (string \<Rightarrow> node option)" where
  "MkdirAll_files fs path =
     (case fs path of
        Some Directory \<Rightarrow> Inr fs
      | Some File \<Rightarrow> Inl ENOTDIR
      | None \<Rightarrow>
          (case parent_of path of
             None \<Rightarrow> Mkdir fs path
           | Some parent \<Rightarrow>
               (case MkdirAll_files fs parent of
                  Inl e \<Rightarrow> Inl e
                | Inr fs' \<Rightarrow> Mkdir fs' path)))"
  by pat_completeness auto
termination
proof (relation "measure (\<lambda>(fs, path). length path)")
  show "wf (measure (\<lambda>(fs, path). length path))"
    by simp
next
  fix fs :: "string \<Rightarrow> node option" and path parent :: string
  let ?i = "rev (dropWhile (\<lambda>c. c = CHR ''/'') (rev path))"
  let ?j = "rev (dropWhile (\<lambda>c. c \<noteq> CHR ''/'') (rev ?i))"
  assume "parent_of path = Some parent"
  then have p: "parent = butlast ?j" and j: "1 < length ?j"
    by (auto simp: parent_of_def Let_def split: if_splits)
  have "length ?j \<le> length ?i"
    using length_dropWhile_le [of "\<lambda>c. c \<noteq> CHR ''/''" "rev ?i"] by simp
  also have "\<dots> \<le> length path"
    using length_dropWhile_le [of "\<lambda>c. c = CHR ''/''" "rev path"] by simp
  finally have "length parent < length path"
    using p j by simp
  then show "((fs, parent), (fs, path)) \<in> measure (\<lambda>(fs, path). length path)"
    by simp
qed

declare MkdirAll_files.simps [simp del]

definition MkdirAll :: "world \<Rightarrow> string \<Rightarrow> errno option \<times> world" where
  "MkdirAll w path =
     (let w = w\<lparr>trace := trace w @ [MkdirAllCall path]\<rparr>
      in case MkdirAll_files (files w) path of
           Inl e \<Rightarrow> (Some e, w)
         | Inr fs \<Rightarrow> (None, w\<lparr>files := fs\<rparr>))"

text \<open>\<^verbatim>\<open>os.Stat(path)\<close>, reduced to whether its error is \<open>nil\<close>.\<close>

definition Stat :: "world \<Rightarrow> string \<Rightarrow> bool \<times> world" where
  "Stat w path = (files w path \<noteq> None, w\<lparr>trace := trace w @ [StatCall path]\<rparr>)"

subsection \<open>The path resolvers\<close>

text \<open>
  \<^verbatim>\<open>model.Name\<close> with the fields that \<^verbatim>\<open>GetManifestPath\<close> sets. The package
  \<^verbatim>\<open>types/model\<close> is not among the sources: its predicate \<^verbatim>\<open>IsValid\<close> and its
  encoding \<^verbatim>\<open>Filepath\<close> are parameters, as is the result of
  \<^verbatim>\<open>envconfig.Models()\<close> (the models directory, or an error message).
\<close>

record Name =
  NameHost :: string
  NameNamespace :: string
  NameModel :: string
  NameTag :: string

definition name_of :: "ModelPath \<Rightarrow> Name" where
  "name_of mp =
     \<lparr>NameHost = Registry mp, NameNamespace = Namespace mp,
      NameModel = Repository mp, NameTag = Tag mp\<rparr>"

text \<open>
  The method \<^verbatim>\<open>ModelPath.GetManifestPath\<close>. It makes no call to package
  \<^verbatim>\<open>os\<close>: the world comes back as it went in.
\<close>

definition ModelPath_GetManifestPath ::
  "(Name \<Rightarrow> bool) \<Rightarrow> (Name \<Rightarrow> string) \<Rightarrow> string + string \<Rightarrow> ModelPath \<Rightarrow> world \<Rightarrow>
   string outcome \<times> world" where
  "ModelPath_GetManifestPath IsValid Filepath Models mp w =
     (let name = name_of mp
      in if \<not> IsValid name then (Error ErrNotExist, w)
         else
           (case Models of
              Inl e \<Rightarrow> (Error (ModelsError e), w)
            | Inr mdir \<Rightarrow> (Return (Join [mdir, ''manifests'', Filepath name]), w)))"

text \<open>The function \<^verbatim>\<open>GetManifestPath\<close> of the package.\<close>

definition GetManifestPath :: "string + string \<Rightarrow> world \<Rightarrow> string outcome \<times> world" where
  "GetManifestPath Models w =
     (case Models of
        Inl e \<Rightarrow> (Error (ModelsError e), w)
      | Inr mdir \<Rightarrow>
          (let path = Join [mdir, ''manifests'']
           in case MkdirAll w path of
                (Some e, w') \<Rightarrow> (Error (NotTraversable e), w')
              | (None, w') \<Rightarrow> (Return path, w')))"

text \<open>
  The pattern \<^verbatim>\<open>^sha256[:-][0-9a-fA-F]{64}$\<close> of \<^verbatim>\<open>GetBlobsPath\<close>. In Go's
  syntax \<open>$\<close> without the multi-line flag matches at the end of the text only, so the
  pattern matches exactly the strings of 71 bytes made of \<open>sha256\<close>, one of \<open>:\<close> and
  \<open>-\<close>, and 64 hexadecimal digits.
\<close>

definition isHexDigit :: "char \<Rightarrow> bool" where
  "isHexDigit c \<longleftrightarrow> c \<in> set ''0123456789abcdefABCDEF''"

definition MatchDigest :: "string \<Rightarrow> bool" where
  "MatchDigest s \<longleftrightarrow>
     length s = 71 \<and> take 6 s = ''sha256'' \<and>
     (s ! 6 = CHR '':'' \<or> s ! 6 = CHR ''-'') \<and>
     list_all isHexDigit (drop 7 s)"

definition GetBlobsPath :: "string + string \<Rightarrow> world \<Rightarrow> string \<Rightarrow> string outcome \<times> world" where
  "GetBlobsPath Models w digest =
     (if digest \<noteq> [] \<and> \<not> MatchDigest digest then (Error ErrInvalidDigestFormat, w)
      else
        (let digest = ReplaceAll digest CHR '':'' ''-''
         in case Models of
              Inl e \<Rightarrow> (Error (ModelsError e), w)
            | Inr mdir \<Rightarrow>
                if digest = [] then
                  (let path = Join [mdir, ''blobs'']
                   in case MkdirAll w path of
                        (Some e, w') \<Rightarrow> (Error (NotTraversable e), w')
                      | (None, w') \<Rightarrow> (Return path, w'))
                else
                  (let hex = TrimPrefix digest ''sha256-''
                   in case slice_to hex 2 of
                        None \<Rightarrow> (Panic, w)
                      | Some shard \<Rightarrow>
                          (let path = Join [mdir, ''blobs'', shard, digest]
                           in case MkdirAll w (Dir path) of
                                (Some e, w') \<Rightarrow> (Error (NotTraversable e), w')
                              | (None, w') \<Rightarrow>
                                  (let old = Join [mdir, ''blobs'', digest]
                                   in case Stat w' old of
                                        (True, w'') \<Rightarrow> (Return old, w'')
                                      | (False, w'') \<Rightarrow> (Return path, w''))))))"

subsection \<open>The parser as the specification words it\<close>

text \<open>
  The remainder of a reference after its scheme: step 1 of the specification's
  algorithm (``if raw contains \<open>://\<close>, split on the first occurrence; the remainder
  continues parsing'').
\<close>

definition reference_body :: "string \<Rightarrow> string" where
  "reference_body name =
     (let (before, after, found) = Cut name ''://'' in if found then after else name)"

text \<open>Step 2: every OS-specific path separator becomes \<open>/\<close>.\<close>

definition spec_normalize :: "goos \<Rightarrow> string \<Rightarrow> string" where
  "spec_normalize os s = map (\<lambda>c. if c = PathSeparator os then CHR ''/'' else c) s"

text \<open>The identity ``relying on defaults for anything unspecified''.\<close>

definition spec_defaults :: ModelPath where
  "spec_defaults =
     \<lparr>ProtocolScheme = ''https'', Registry = ''registry.goobla.ai'',
      Namespace = ''library'', Repository = [], Tag = ''latest''\<rparr>"

text \<open>
  Step 3: three segments are registry, namespace, repository; two are namespace,
  repository; one is the repository; any other count overwrites nothing.
\<close>

definition spec_assign :: "string list \<Rightarrow> ModelPath" where
  "spec_assign segs =
     (case segs of
        [r, n, p] \<Rightarrow> spec_defaults\<lparr>Registry := r, Namespace := n, Repository := p\<rparr>
      | [n, p] \<Rightarrow> spec_defaults\<lparr>Namespace := n, Repository := p\<rparr>
      | [p] \<Rightarrow> spec_defaults\<lparr>Repository := p\<rparr>
      | _ \<Rightarrow> spec_defaults)"

text \<open>
  Step 4: a repository that contains \<open>:\<close> is split on the first occurrence into
  repository and tag.
\<close>

definition spec_split_tag :: "ModelPath \<Rightarrow> ModelPath" where
  "spec_split_tag mp =
     (if CHR '':'' \<in> set (Repository mp)
      then mp\<lparr>Repository := takeWhile (\<lambda>c. c \<noteq> CHR '':'') (Repository mp),
              Tag := tl (dropWhile (\<lambda>c. c \<noteq> CHR '':'') (Repository mp))\<rparr>
      else mp)"

text \<open>
  Modelled from the spec: the name-validity predicate \<^verbatim>\<open>model.Name.IsValid\<close> of
  package \<^verbatim>\<open>types/model\<close>, which is not among the sources; the specification keeps
  its rules opaque (it ``rejects disallowed characters, empty repository''). The
  characters a valid identity may not contain are taken to be those the reference
  syntax \<open>registry/namespace/repository:tag\<close> gives a meaning to: no part contains \<open>/\<close>
  or the path separator of the platform, the repository contains no \<open>:\<close>, and the
  namespace is not empty. A registry may contain \<open>:\<close> (a port).
\<close>

definition reference_safe :: "goos \<Rightarrow> string \<Rightarrow> bool" where
  "reference_safe os s \<longleftrightarrow> CHR ''/'' \<notin> set s \<and> PathSeparator os \<notin> set s"

definition valid_identity :: "goos \<Rightarrow> ModelPath \<Rightarrow> bool" where
  "valid_identity os mp \<longleftrightarrow>
     reference_safe os (Registry mp) \<and>
     reference_safe os (Namespace mp) \<and> Namespace mp \<noteq> [] \<and>
     reference_safe os (Repository mp) \<and> CHR '':'' \<notin> set (Repository mp) \<and>
     reference_safe os (Tag mp)"

text \<open>
  Auxiliary notions for reasoning about paths. A plain element is a name: not empty, not
  \<open>.\<close> or \<open>..\<close>, and without a separator.
\<close>

definition plain :: "string \<Rightarrow> bool" where
  "plain c \<longleftrightarrow> c \<noteq> [] \<and> c \<noteq> ''.'' \<and> c \<noteq> ''..'' \<and> CHR ''/'' \<notin> set c"

text \<open>
  The states that the clean-up passes through: the first \<open>dd\<close> elements are \<open>..\<close>
  (none in a rooted path) and the others are plain.
\<close>

definition clean_inv :: "bool \<Rightarrow> string list \<times> nat \<Rightarrow> bool" where
  "clean_inv rooted s \<longleftrightarrow>
     (case s of (out, dd) \<Rightarrow>
        dd \<le> length out \<and> take dd out = replicate dd ''..'' \<and>
        (\<forall>c \<in> set (drop dd out). plain c) \<and> (rooted \<longrightarrow> dd = 0))"

text \<open>Whether a path is rooted, and its elements after the clean-up.\<close>

definition root_of :: "string \<Rightarrow> bool" where
  "root_of m \<longleftrightarrow> m \<noteq> [] \<and> hd m = CHR ''/''"

definition comps_of :: "string \<Rightarrow> string list" where
  "comps_of m =
     (if m = [] then []
      else fst (foldl (clean_step (hd m = CHR ''/'')) ([], 0) (Split m CHR ''/'')))"

subsection \<open>The blob paths as the specification words them\<close>

text \<open>
  The canonical on-disk form of a digest \<open>sha256:<hex>\<close> or \<open>sha256-<hex>\<close>, with
  \<open>-\<close> as the separator; the sharded candidate path
  \<open><modelsRoot>/blobs/<first-2-hex-chars>/<canonical-digest>\<close>; and the unsharded
  legacy path \<open><modelsRoot>/blobs/<canonical-digest>\<close>.
\<close>

definition canonical :: "string \<Rightarrow> string" where
  "canonical digest = ''sha256-'' @ drop 7 digest"

definition sharded_path :: "string \<Rightarrow> string \<Rightarrow> string" where
  "sharded_path mdir digest =
     Join [mdir, ''blobs'', take 2 (drop 7 digest), canonical digest]"

definition legacy_path :: "string \<Rightarrow> string \<Rightarrow> string" where
  "legacy_path mdir digest = Join [mdir, ''blobs'', canonical digest]"

text \<open>A directory exists or can be created, with its parents.\<close>

definition creatable :: "(string \<Rightarrow> node option) \<Rightarrow> string \<Rightarrow> bool" where
  "creatable fs path = (case MkdirAll_files fs path of Inl e \<Rightarrow> False | Inr fs' \<Rightarrow> True)"

text \<open>
  Two digests differ only in the letter case of their hexadecimal digits when they are
  different and equal after the letters \<open>A\<close> to \<open>F\<close> are put in lower case.
\<close>

definition lower_hex :: "char \<Rightarrow> char" where
  "lower_hex c =
     (if c = CHR ''A'' then CHR ''a'' else if c = CHR ''B'' then CHR ''b''
      else if c = CHR ''C'' then CHR ''c'' else if c = CHR ''D'' then CHR ''d''
      else if c = CHR ''E'' then CHR ''e'' else if c = CHR ''F'' then CHR ''f''
      else c)"

section \<open>Properties\<close>

subsection \<open>Facts about the string functions\<close>

lemma Split_ne: "Split s sep \<noteq> []"
  by (induction s) (auto split: list.splits)

lemma Split_no_sep: "sep \<notin> set s \<Longrightarrow> Split s sep = [s]"
  by (induction s) auto

lemma Split_append: "Split (p @ sep # q) sep = Split p sep @ Split q sep"
  by (induction p) (auto split: list.splits simp: Split_ne)

lemma Split_sep_free: "c \<in> set (Split s sep) \<Longrightarrow> sep \<notin> set c"
  by (induction s arbitrary: c) (auto split: if_splits list.splits)

lemma Index_char:
  "Index s [c] = (if c \<in> set s then Some (length (takeWhile (\<lambda>x. x \<noteq> c) s)) else None)"
  by (induction s) auto

lemma Cut_char:
  "Cut s [c] =
     (if c \<in> set s
      then (takeWhile (\<lambda>x. x \<noteq> c) s, tl (dropWhile (\<lambda>x. x \<noteq> c) s), True)
      else (s, [], False))"
proof -
  have "c \<in> set s \<Longrightarrow>
      take (length (takeWhile (\<lambda>x. x \<noteq> c) s)) s = takeWhile (\<lambda>x. x \<noteq> c) s \<and>
      drop (Suc (length (takeWhile (\<lambda>x. x \<noteq> c) s))) s = tl (dropWhile (\<lambda>x. x \<noteq> c) s)"
    by (induction s) auto
  then show ?thesis
    by (simp add: Cut_def Index_char)
qed

lemma Cut_absent: "Index s sep = None \<Longrightarrow> Cut s sep = (s, [], False)"
  by (simp add: Cut_def)

lemma ReplaceAll_absent: "old \<notin> set s \<Longrightarrow> ReplaceAll s old new = s"
  by (induction s) (auto simp: ReplaceAll_def)

lemma ReplaceAll_map: "ReplaceAll s old [new] = map (\<lambda>c. if c = old then new else c) s"
  by (induction s) (auto simp: ReplaceAll_def)

lemma prefix_Cons_mem: "prefix (c # cs) xs \<Longrightarrow> c \<in> set xs"
  by (auto simp: prefix_def)

lemma takeWhile_until: "c \<notin> set p \<Longrightarrow> takeWhile (\<lambda>x. x \<noteq> c) (p @ c # t) = p"
  by (induction p) auto

lemma dropWhile_until: "c \<notin> set p \<Longrightarrow> dropWhile (\<lambda>x. x \<noteq> c) (p @ c # t) = c # t"
  by (induction p) auto

text \<open>
  Where \<open>://\<close> can start in \<open>a @ b\<close> when \<open>a\<close> has no \<open>/\<close>: at the last byte of
  \<open>a\<close>, or inside \<open>b\<close>.
\<close>

lemma Index_scheme_append:
  "CHR ''/'' \<notin> set a \<Longrightarrow>
   Index (a @ b) ''://'' =
     (if a \<noteq> [] \<and> last a = CHR '':'' \<and> prefix ''//'' b then Some (length a - 1)
      else map_option (\<lambda>i. i + length a) (Index b ''://''))"
proof (induction a)
  case Nil
  then show ?case by (simp add: option.map_ident)
next
  case (Cons x a)
  then show ?case
    by (cases a) (auto simp: option.map_comp comp_def)
qed

lemma Index_scheme_slash_free: "CHR ''/'' \<notin> set a \<Longrightarrow> Index a ''://'' = None"
  using Index_scheme_append [of a "[]"] by simp

lemma Index_scheme_full:
  assumes "CHR ''/'' \<notin> set r" "CHR ''/'' \<notin> set n" "n \<noteq> []"
    "CHR ''/'' \<notin> set p" "CHR '':'' \<notin> set p" "CHR ''/'' \<notin> set t"
  shows "Index (r @ ''/'' @ n @ ''/'' @ p @ '':'' @ t) ''://'' = None"
proof -
  have t: "Index ('':'' @ t) ''://'' = None"
    using assms(6) by (auto simp: Index_scheme_slash_free dest: prefix_Cons_mem)
  have p: "Index (p @ '':'' @ t) ''://'' = None"
    using assms(4,5) t by (cases "p = []") (simp_all add: Index_scheme_append)
  have n: "Index (n @ ''/'' @ p @ '':'' @ t) ''://'' = None"
    using assms(2,4) p by (cases p) (simp_all add: Index_scheme_append)
  show ?thesis
    using assms(1,2,3) n by (cases n) (simp_all add: Index_scheme_append)
qed

subsection \<open>The reference parser\<close>

lemma assign_parts_total:
  "assign_parts mp parts =
     Some (case parts of
        [r, n, p] \<Rightarrow> mp\<lparr>Registry := r, Namespace := n, Repository := p\<rparr>
      | [n, p] \<Rightarrow> mp\<lparr>Namespace := n, Repository := p\<rparr>
      | [p] \<Rightarrow> mp\<lparr>Repository := p\<rparr>
      | _ \<Rightarrow> mp)"
  by (auto simp: assign_parts_def index_at_def split: list.splits)

lemma split_tag_eq:
  "(case Cut (Repository mp) '':'' of (repo, tag, found) \<Rightarrow>
      Return (if found then mp\<lparr>Repository := repo, Tag := tag\<rparr> else mp)) =
   Return (spec_split_tag mp)"
  by (simp add: Cut_char spec_split_tag_def)

text \<open>
  The parser in closed form: the scheme is what \<open>Cut\<close> found before \<open>://\<close>, and the
  segments of the normalised remainder fill the other fields.
\<close>

lemma ParseModelPath_eq:
  "ParseModelPath os name =
     Return (spec_split_tag
       (case Split (spec_normalize os (reference_body name)) CHR ''/'' of
           [r, n, p] \<Rightarrow>
             \<lparr>ProtocolScheme = (case Cut name ''://'' of (b, a, f) \<Rightarrow> if f then b else ''https''),
              Registry = r, Namespace = n, Repository = p, Tag = ''latest''\<rparr>
         | [n, p] \<Rightarrow>
             \<lparr>ProtocolScheme = (case Cut name ''://'' of (b, a, f) \<Rightarrow> if f then b else ''https''),
              Registry = ''registry.goobla.ai'', Namespace = n, Repository = p,
              Tag = ''latest''\<rparr>
         | [p] \<Rightarrow>
             \<lparr>ProtocolScheme = (case Cut name ''://'' of (b, a, f) \<Rightarrow> if f then b else ''https''),
              Registry = ''registry.goobla.ai'', Namespace = ''library'', Repository = p,
              Tag = ''latest''\<rparr>
         | _ \<Rightarrow>
             \<lparr>ProtocolScheme = (case Cut name ''://'' of (b, a, f) \<Rightarrow> if f then b else ''https''),
              Registry = ''registry.goobla.ai'', Namespace = ''library'', Repository = [],
              Tag = ''latest''\<rparr>))"
proof -
  obtain b a f where c: "Cut name ''://'' = (b, a, f)"
    by (cases "Cut name ''://''") auto
  define body where "body = (if f then a else name)"
  define segs where "segs = Split (ReplaceAll body (PathSeparator os) ''/'') CHR ''/''"
  have segs: "Split (spec_normalize os (reference_body name)) CHR ''/'' = segs"
    by (simp add: segs_def body_def reference_body_def c spec_normalize_def ReplaceAll_map)
  have p: "ParseModelPath os name =
    Return (spec_split_tag (case segs of
        [r, n, p] \<Rightarrow>
          \<lparr>ProtocolScheme = (if f then b else ''https''),
           Registry = r, Namespace = n, Repository = p, Tag = ''latest''\<rparr>
      | [n, p] \<Rightarrow>
          \<lparr>ProtocolScheme = (if f then b else ''https''),
           Registry = ''registry.goobla.ai'', Namespace = n, Repository = p,
           Tag = ''latest''\<rparr>
      | [p] \<Rightarrow>
          \<lparr>ProtocolScheme = (if f then b else ''https''),
           Registry = ''registry.goobla.ai'', Namespace = ''library'', Repository = p,
           Tag = ''latest''\<rparr>
      | _ \<Rightarrow>
          \<lparr>ProtocolScheme = (if f then b else ''https''),
           Registry = ''registry.goobla.ai'', Namespace = ''library'', Repository = [],
           Tag = ''latest''\<rparr>))"
    unfolding ParseModelPath_def c Let_def prod.case assign_parts_total split_tag_eq
      body_def[symmetric] segs_def[symmetric] option.case
      DefaultProtocolScheme_def DefaultRegistry_def DefaultNamespace_def DefaultTag_def
    by (simp split: list.split)
  show ?thesis by (simp only: segs p c prod.case)
qed

lemma normalize_safe:
  "PathSeparator os \<notin> set s \<or> PathSeparator os = CHR ''/'' \<Longrightarrow> spec_normalize os s = s"
  unfolding spec_normalize_def by (induction s) auto

text \<open>
  Claim C4. For a reference without a scheme, the parser normalises the path separators
  of the platform to \<open>/\<close>, assigns the \<open>/\<close>-separated segments by their count (three:
  registry, namespace, repository; two: namespace, repository; one: repository; any
  other count: nothing, so that all fields keep their defaults and the repository is
  empty), and then splits a repository that contains \<open>:\<close> on the first \<open>:\<close> into
  repository and tag.
\<close>

theorem ParseModelPath_segments:
  "Index name ''://'' = None \<Longrightarrow>
   ParseModelPath os name =
     Return (spec_split_tag (spec_assign (Split (spec_normalize os name) CHR ''/'')))"
  by (simp add: ParseModelPath_eq Cut_absent reference_body_def spec_assign_def
      spec_defaults_def split: list.split)

theorem ParseModelPath_segments_witness:
  "Index ''research/llama:13b'' ''://'' = None \<and>
   ParseModelPath Unix ''research/llama:13b'' =
     Return \<lparr>ProtocolScheme = ''https'', Registry = ''registry.goobla.ai'',
       Namespace = ''research'', Repository = ''llama'', Tag = ''13b''\<rparr>"
  using ParseModelPath_segments [of "''research/llama:13b''" Unix]
  by (simp add: spec_split_tag_def spec_assign_def spec_normalize_def spec_defaults_def
      PathSeparator_def)

text \<open>
  Claim C5. For every valid identity, parsing the string that \<open>GetFullTagname\<close>
  produces gives back the same registry, namespace, repository and tag (the scheme of
  the result is the default one, since the full name carries none).
\<close>

theorem ParseModelPath_GetFullTagname:
  assumes "valid_identity os mp"
  shows "ParseModelPath os (GetFullTagname mp) =
    Return (mp\<lparr>ProtocolScheme := DefaultProtocolScheme\<rparr>)"
proof -
  let ?r = "Registry mp" and ?n = "Namespace mp" and ?p = "Repository mp" and ?t = "Tag mp"
  let ?full = "?r @ ''/'' @ ?n @ ''/'' @ ?p @ '':'' @ ?t"
  have safe: "CHR ''/'' \<notin> set ?r" "CHR ''/'' \<notin> set ?n" "?n \<noteq> []"
    "CHR ''/'' \<notin> set ?p" "CHR '':'' \<notin> set ?p" "CHR ''/'' \<notin> set ?t"
    using assms by (simp_all add: valid_identity_def reference_safe_def)
  have noscheme: "Index ?full ''://'' = None"
    by (rule Index_scheme_full) (rule safe)+
  have sep: "PathSeparator os \<notin> set ?full \<or> PathSeparator os = CHR ''/''"
    using assms
    by (cases os) (auto simp: valid_identity_def reference_safe_def PathSeparator_def)
  have norm: "spec_normalize os ?full = ?full"
    by (rule normalize_safe) (rule sep)
  have "Split ?full CHR ''/'' =
      Split ?r CHR ''/'' @ Split ?n CHR ''/'' @ Split (?p @ '':'' @ ?t) CHR ''/''"
    using Split_append [of ?r "CHR ''/''" "?n @ ''/'' @ ?p @ '':'' @ ?t"]
      Split_append [of ?n "CHR ''/''" "?p @ '':'' @ ?t"] by simp
  then have segs: "Split ?full CHR ''/'' = [?r, ?n, ?p @ '':'' @ ?t]"
    using safe by (simp add: Split_no_sep)
  have cut: "Cut ?full ''://'' = (?full, [], False)"
    by (rule Cut_absent) (rule noscheme)
  have body: "reference_body ?full = ?full"
    unfolding reference_body_def cut by simp
  have "ParseModelPath os ?full = Return (mp\<lparr>ProtocolScheme := DefaultProtocolScheme\<rparr>)"
    unfolding ParseModelPath_eq body norm segs cut
    using safe(5)
    by (simp add: spec_split_tag_def takeWhile_until dropWhile_until
        DefaultProtocolScheme_def)
  then show ?thesis by (simp add: GetFullTagname_def)
qed

theorem ParseModelPath_GetFullTagname_witness:
  "valid_identity Windows
     \<lparr>ProtocolScheme = ''https'', Registry = ''localhost:5000'', Namespace = ''research'',
      Repository = ''llama'', Tag = ''13b''\<rparr> \<and>
   ParseModelPath Windows ''localhost:5000/research/llama:13b'' =
     Return \<lparr>ProtocolScheme = ''https'', Registry = ''localhost:5000'',
       Namespace = ''research'', Repository = ''llama'', Tag = ''13b''\<rparr>"
  using ParseModelPath_GetFullTagname [of Windows
      "\<lparr>ProtocolScheme = ''https'', Registry = ''localhost:5000'', Namespace = ''research'',
        Repository = ''llama'', Tag = ''13b''\<rparr>"]
  by (simp add: valid_identity_def reference_safe_def PathSeparator_def GetFullTagname_def
      DefaultProtocolScheme_def)

text \<open>
  Claim C7. \<open>GetShortTagname\<close> is \<open>repository:tag\<close> when registry and namespace
  both equal their defaults, \<open>namespace/repository:tag\<close> when only the registry equals
  its default, and the fully qualified \<open>registry/namespace/repository:tag\<close> whenever the
  registry differs from the default, whatever the namespace.
\<close>

theorem GetShortTagname_cases:
  "(Registry mp = DefaultRegistry \<and> Namespace mp = DefaultNamespace \<longrightarrow>
      GetShortTagname mp = Repository mp @ '':'' @ Tag mp) \<and>
   (Registry mp = DefaultRegistry \<and> Namespace mp \<noteq> DefaultNamespace \<longrightarrow>
      GetShortTagname mp = Namespace mp @ ''/'' @ Repository mp @ '':'' @ Tag mp) \<and>
   (Registry mp \<noteq> DefaultRegistry \<longrightarrow>
      GetShortTagname mp =
        Registry mp @ ''/'' @ Namespace mp @ ''/'' @ Repository mp @ '':'' @ Tag mp)"
  by (simp add: GetShortTagname_def)

theorem GetShortTagname_cases_witness:
  "GetShortTagname \<lparr>ProtocolScheme = ''https'', Registry = ''registry.goobla.ai'',
      Namespace = ''library'', Repository = ''llama'', Tag = ''7b''\<rparr> = ''llama:7b'' \<and>
   GetShortTagname \<lparr>ProtocolScheme = ''https'', Registry = ''registry.goobla.ai'',
      Namespace = ''research'', Repository = ''llama'', Tag = ''7b''\<rparr> = ''research/llama:7b'' \<and>
   GetShortTagname \<lparr>ProtocolScheme = ''https'', Registry = ''example.com'',
      Namespace = ''library'', Repository = ''llama'', Tag = ''7b''\<rparr> =
     ''example.com/library/llama:7b''"
  using
    GetShortTagname_cases [of "\<lparr>ProtocolScheme = ''https'', Registry = ''registry.goobla.ai'',
      Namespace = ''library'', Repository = ''llama'', Tag = ''7b''\<rparr>"]
    GetShortTagname_cases [of "\<lparr>ProtocolScheme = ''https'', Registry = ''registry.goobla.ai'',
      Namespace = ''research'', Repository = ''llama'', Tag = ''7b''\<rparr>"]
    GetShortTagname_cases [of "\<lparr>ProtocolScheme = ''https'', Registry = ''example.com'',
      Namespace = ''library'', Repository = ''llama'', Tag = ''7b''\<rparr>"]
  by (simp add: DefaultRegistry_def DefaultNamespace_def)

text \<open>
  Claim C8, as far as it holds. \<open>ParseModelPath\<close> returns for every input, without a
  failure, and a field whose part is absent from the input has its default: the scheme
  when the input has no \<open>://\<close>, the registry unless there are three segments, the
  namespace unless there are two or three, the tag when there are more than three
  segments or the last segment has no \<open>:\<close>. A part that is present but empty leaves
  its field empty, as the instance after the theorem shows.
\<close>

theorem ParseModelPath_total_defaults:
  "\<exists>mp. ParseModelPath os name = Return mp \<and>
     (let segs = Split (spec_normalize os (reference_body name)) CHR ''/'' in
       (Index name ''://'' = None \<longrightarrow> ProtocolScheme mp = DefaultProtocolScheme) \<and>
       (length segs \<noteq> 3 \<longrightarrow> Registry mp = DefaultRegistry) \<and>
       (length segs \<noteq> 3 \<and> length segs \<noteq> 2 \<longrightarrow> Namespace mp = DefaultNamespace) \<and>
       (3 < length segs \<or> CHR '':'' \<notin> set (last segs) \<longrightarrow> Tag mp = DefaultTag))"
  by (auto simp add: ParseModelPath_eq Cut_absent Let_def spec_split_tag_def
      DefaultProtocolScheme_def DefaultRegistry_def DefaultNamespace_def DefaultTag_def
      split: list.split)

theorem ParseModelPath_total_defaults_witness:
  "\<exists>mp. ParseModelPath Unix ''llama'' = Return mp \<and>
     ProtocolScheme mp = ''https'' \<and> Registry mp = ''registry.goobla.ai'' \<and>
     Namespace mp = ''library'' \<and> Tag mp = ''latest''"
  using ParseModelPath_total_defaults [of Unix "''llama''"]
  by (simp add: Let_def spec_normalize_def reference_body_def Cut_def PathSeparator_def
      DefaultProtocolScheme_def DefaultRegistry_def DefaultNamespace_def DefaultTag_def)

text \<open>
  The claim as written fails: a reference that ends in \<open>:\<close> has an empty tag, not the
  default one.
\<close>

theorem ParseModelPath_empty_tag:
  "ParseModelPath Unix ''llama:'' =
     Return \<lparr>ProtocolScheme = ''https'', Registry = ''registry.goobla.ai'',
       Namespace = ''library'', Repository = ''llama'', Tag = []\<rparr>"
  by (simp add: ParseModelPath_eq spec_split_tag_def spec_normalize_def reference_body_def
      Cut_def PathSeparator_def)

subsection \<open>Lexical paths\<close>

text \<open>
  The path functions on the examples that Go's documentation and tests give for them.
\<close>

lemma Clean_examples:
  "Clean '''' = ''.''"
  "Clean ''abc/'' = ''abc''"
  "Clean ''/'' = ''/''"
  "Clean ''abc//def//ghi'' = ''abc/def/ghi''"
  "Clean ''//abc//'' = ''/abc''"
  "Clean ''abc/./def'' = ''abc/def''"
  "Clean ''abc/def/ghi/../jkl'' = ''abc/def/jkl''"
  "Clean ''abc/def/../..'' = ''.''"
  "Clean ''abc/def/../../..'' = ''..''"
  "Clean ''/abc/def/../../..'' = ''/''"
  "Clean ''abc/def/../../../ghi/jkl/../../../mno'' = ''../../mno''"
  "Clean ''/../abc'' = ''/abc''"
  "Clean ''abc/../../././../def'' = ''../../def''"
  by (simp_all add: Clean_def render_def)

lemma Join_examples:
  "Join [''a'', ''b''] = ''a/b''"
  "Join [''a'', ''''] = ''a''"
  "Join ['''', ''b''] = ''b''"
  "Join [''/'', ''a''] = ''/a''"
  "Join [''a/'', ''b''] = ''a/b''"
  "Join ['''', ''''] = ''''"
  "Join [''a'', ''../b''] = ''b''"
  by (simp_all add: Join_def Clean_def render_def)

lemma Dir_examples:
  "Dir ''/foo/bar/baz.js'' = ''/foo/bar''"
  "Dir ''/foo/bar/baz/'' = ''/foo/bar/baz''"
  "Dir ''dev.txt'' = ''.''"
  "Dir ''../todo.txt'' = ''..''"
  "Dir ''/'' = ''/''"
  "Dir '''' = ''.''"
  by (simp_all add: Dir_def Clean_def render_def)

lemma StringsJoin_snoc:
  "cs \<noteq> [] \<Longrightarrow> StringsJoin (cs @ [a]) sep = StringsJoin cs sep @ sep @ a"
  by (induction cs sep rule: StringsJoin.induct) auto

lemma Split_StringsJoin:
  "cs \<noteq> [] \<Longrightarrow> \<forall>c \<in> set cs. sep \<notin> set c \<Longrightarrow> Split (StringsJoin cs [sep]) sep = cs"
proof (induction cs "[sep]" rule: StringsJoin.induct)
  case 1
  then show ?case by simp
next
  case (2 x)
  then show ?case by (simp add: Split_no_sep)
next
  case (3 x y ys)
  then show ?case
    using Split_append [of x sep "StringsJoin (y # ys) [sep]"]
    by (simp add: Split_no_sep)
qed

lemma clean_step_plain: "plain c \<Longrightarrow> clean_step r (out, dd) c = (out @ [c], dd)"
  by (simp add: plain_def)

lemma foldl_plain:
  "\<forall>c \<in> set cs. plain c \<Longrightarrow> foldl (clean_step r) (out, dd) cs = (out @ cs, dd)"
  by (induction cs arbitrary: out) (simp_all add: clean_step_plain del: clean_step.simps)

lemma clean_step_inv:
  assumes "clean_inv r s" "CHR ''/'' \<notin> set c"
  shows "clean_inv r (clean_step r s c)"
proof -
  obtain out dd where s: "s = (out, dd)" by (cases s)
  have inv: "dd \<le> length out" "take dd out = replicate dd ''..''"
    "\<forall>c \<in> set (drop dd out). plain c" "r \<longrightarrow> dd = 0"
    using assms(1) by (simp_all add: clean_inv_def s)
  consider (skip) "c = [] \<or> c = ''.''" | (up) "c = ''..''" | (name) "plain c"
    using assms(2) by (auto simp: plain_def)
  then show ?thesis
  proof cases
    case skip
    then show ?thesis using assms(1) by (auto simp: s)
  next
    case up
    show ?thesis
    proof (cases "dd < length out")
      case True
      have "set (drop dd (butlast out)) \<subseteq> set (drop dd out)"
        by (metis butlast_drop in_set_butlastD subsetI)
      then show ?thesis
        using True up inv by (auto simp: s clean_inv_def take_butlast)
    next
      case False
      then have len: "length out = dd"
        using inv(1) by simp
      have out: "out = replicate dd ''..''"
        using inv(2) len by (metis order_refl take_all)
      show ?thesis
      proof (cases r)
        case True
        then show ?thesis using up False assms(1) by (simp add: s)
      next
        case nr: False
        have "clean_inv r (replicate dd ''..'' @ [''..''], Suc dd)"
          using nr by (simp add: clean_inv_def replicate_append_same)
        moreover have "clean_step r s c = (out @ [''..''], Suc dd)"
          using up nr len by (simp add: s)
        ultimately show ?thesis
          using out by simp
      qed
    qed
  next
    case name
    then show ?thesis
      using inv by (auto simp: s clean_inv_def clean_step_plain simp del: clean_step.simps)
  qed
qed

lemma foldl_inv:
  "clean_inv r s \<Longrightarrow> \<forall>c \<in> set cs. CHR ''/'' \<notin> set c \<Longrightarrow>
   clean_inv r (foldl (clean_step r) s cs)"
  by (induction cs arbitrary: s) (simp_all add: clean_step_inv)

lemma clean_inv_init: "clean_inv r ([], 0)"
  by (simp add: clean_inv_def)

lemma comps_inv: "\<exists>dd. clean_inv (root_of m) (comps_of m, dd)"
proof (cases "m = []")
  case True
  then show ?thesis by (auto simp: comps_of_def intro: exI [of _ 0] clean_inv_init)
next
  case False
  let ?s = "foldl (clean_step (hd m = CHR ''/'')) ([], 0) (Split m CHR ''/'')"
  have "clean_inv (hd m = CHR ''/'') ?s"
    by (rule foldl_inv) (auto simp: clean_inv_init dest: Split_sep_free)
  then have "clean_inv (root_of m) (comps_of m, snd ?s)"
    using False by (simp add: root_of_def comps_of_def)
  then show ?thesis ..
qed

lemma clean_step_empty: "clean_step r s [] = s"
  by (cases s) simp

lemma Clean_eq:
  "path \<noteq> [] \<Longrightarrow>
   foldl (clean_step (hd path = CHR ''/'')) ([], 0) (Split path CHR ''/'') = (out, dd) \<Longrightarrow>
   Clean path = render (hd path = CHR ''/'') out"
  by (simp add: Clean_def)

lemma foldl_dotdots:
  "\<not> r \<Longrightarrow>
   foldl (clean_step r) (replicate k ''..'', k) (replicate j ''..'') =
     (replicate (k + j) ''..'', k + j)"
proof (induction j arbitrary: k)
  case 0
  then show ?case by simp
next
  case (Suc j)
  have step: "clean_step r (replicate k ''..'', k) ''..'' = (replicate (Suc k) ''..'', Suc k)"
    using Suc.prems by (simp add: replicate_append_same)
  have "foldl (clean_step r) (replicate k ''..'', k) (replicate (Suc j) ''..'') =
      foldl (clean_step r) (clean_step r (replicate k ''..'', k) ''..'') (replicate j ''..'')"
    by (simp del: clean_step.simps)
  also have "\<dots> = foldl (clean_step r) (replicate (Suc k) ''..'', Suc k) (replicate j ''..'')"
    by (simp only: step)
  also have "\<dots> = (replicate (Suc k + j) ''..'', Suc k + j)"
    by (rule Suc.IH) (rule Suc.prems)
  finally show ?case by simp
qed

lemma reclean:
  assumes "clean_inv r (out, dd)"
  shows "foldl (clean_step r) ([], 0) out = (out, dd)"
proof -
  have inv: "dd \<le> length out" "take dd out = replicate dd ''..''"
    "\<forall>c \<in> set (drop dd out). plain c" "r \<longrightarrow> dd = 0"
    using assms by (simp_all add: clean_inv_def)
  have split: "out = replicate dd ''..'' @ drop dd out"
    using inv(2) by (metis append_take_drop_id)
  have "foldl (clean_step r) ([], 0) (replicate dd ''..'') = (replicate dd ''..'', dd)"
  proof (cases r)
    case True
    then show ?thesis using inv(4) by simp
  next
    case False
    then show ?thesis using foldl_dotdots [of r 0 dd] by simp
  qed
  then have "foldl (clean_step r) ([], 0) (replicate dd ''..'' @ drop dd out) =
      (replicate dd ''..'' @ drop dd out, dd)"
    using inv(3) by (simp add: foldl_plain del: clean_step.simps)
  then show ?thesis
    using split by simp
qed

lemma clean_inv_slash_free:
  assumes "clean_inv r (out, dd)" "c \<in> set out"
  shows "CHR ''/'' \<notin> set c \<and> c \<noteq> []"
proof -
  have t: "take dd out = replicate dd ''..''" and d: "\<forall>c \<in> set (drop dd out). plain c"
    using assms(1) by (simp_all add: clean_inv_def)
  have "set out = set (take dd out) \<union> set (drop dd out)"
    by (simp flip: set_append)
  then have "c \<in> set (replicate dd ''..'') \<or> c \<in> set (drop dd out)"
    using assms(2) by (simp only: t Un_iff)
  then have "c = ''..'' \<or> plain c"
    using d by (auto split: if_splits)
  then show ?thesis
    by (auto simp: plain_def)
qed

lemma hd_StringsJoin: "x \<noteq> [] \<Longrightarrow> hd (StringsJoin (x # xs) sep) = hd x"
  by (cases xs) auto

lemma StringsJoin_ne: "x \<noteq> [] \<Longrightarrow> StringsJoin (x # xs) sep \<noteq> []"
  by (cases xs) auto

lemma Split_snoc_sep: "Split (p @ [sep]) sep = Split p sep @ [[]]"
  using Split_append [of p sep "[]"] by simp

lemma foldl_skip_empty:
  "foldl (clean_step r) s (cs @ [[]]) = foldl (clean_step r) s cs"
  by (cases "foldl (clean_step r) s cs") simp

text \<open>Cleaning a cleaned path, with or without a trailing separator, changes nothing.\<close>

lemma Clean_render:
  assumes "clean_inv r (out, dd)"
  shows "Clean (render r out) = render r out"
    and "out \<noteq> [] \<Longrightarrow> Clean (render r out @ ''/'') = render r out"
proof -
  have free: "\<forall>c \<in> set out. CHR ''/'' \<notin> set c"
    using clean_inv_slash_free [OF assms] by blast
  have hd_out: "out \<noteq> [] \<Longrightarrow> hd out \<noteq> [] \<and> hd (hd out) \<noteq> CHR ''/''"
    using clean_inv_slash_free [OF assms, of "hd out"]
    by (metis hd_in_set list.set_sel(1))
  have fold: "foldl (clean_step r) ([], 0) out = (out, dd)"
    by (rule reclean) (rule assms)
  show "Clean (render r out) = render r out"
  proof (cases r)
    case True
    have sp: "Split (render r out) CHR ''/'' = [] # (if out = [] then [[]] else out)"
      using True free by (simp add: render_def Split_StringsJoin)
    have hdr: "(hd (render r out) = CHR ''/'') = r" and ne: "render r out \<noteq> []"
      using True by (simp_all add: render_def)
    have "foldl (clean_step r) ([], 0) ([] # (if out = [] then [[]] else out)) = (out, dd)"
      using fold by (cases "out = []") (simp_all add: clean_step_empty del: clean_step.simps)
    then have "foldl (clean_step (hd (render r out) = CHR ''/'')) ([], 0)
        (Split (render r out) CHR ''/'') = (out, dd)"
      by (simp only: sp hdr)
    then have "Clean (render r out) = render (hd (render r out) = CHR ''/'') out"
      using ne by (intro Clean_eq)
    then show ?thesis by (simp only: hdr)
  next
    case False
    show ?thesis
    proof (cases "out = []")
      case True
      then show ?thesis using False by (simp add: Clean_def render_def)
    next
      case ne: False
      then obtain x xs where out: "out = x # xs" by (cases out) auto
      have sp: "Split (render r out) CHR ''/'' = out"
        using False ne free by (simp add: render_def Split_StringsJoin)
      have hdr: "(hd (render r out) = CHR ''/'') = r" and ne': "render r out \<noteq> []"
        using False ne hd_out by (simp_all add: render_def out hd_StringsJoin StringsJoin_ne)
      have "foldl (clean_step (hd (render r out) = CHR ''/'')) ([], 0)
          (Split (render r out) CHR ''/'') = (out, dd)"
        using fold by (simp only: sp hdr)
      then have "Clean (render r out) = render (hd (render r out) = CHR ''/'') out"
        using ne' by (intro Clean_eq)
      then show ?thesis by (simp only: hdr)
    qed
  qed
  show "Clean (render r out @ ''/'') = render r out" if ne: "out \<noteq> []"
  proof -
    obtain x xs where out: "out = x # xs" using ne by (cases out) auto
    have sp: "Split (render r out @ ''/'') CHR ''/'' =
        (if r then [[]] else []) @ out @ [[]]"
      using free ne Split_snoc_sep [of "render r out" "CHR ''/''"]
      by (simp add: render_def Split_StringsJoin)
    have hd: "hd (render r out @ ''/'') = CHR ''/'' \<longleftrightarrow> r"
      using ne hd_out by (simp add: render_def out hd_StringsJoin StringsJoin_ne hd_append)
    have ne': "render r out @ ''/'' \<noteq> []" by simp
    have "foldl (clean_step r) ([], 0) ((if r then [[]] else []) @ out @ [[]]) = (out, dd)"
      using fold foldl_skip_empty [of r "([], 0)" out]
      by (cases r) (simp_all add: clean_step_empty del: clean_step.simps)
    then have "foldl (clean_step (hd (render r out @ ''/'') = CHR ''/'')) ([], 0)
        (Split (render r out @ ''/'') CHR ''/'') = (out, dd)"
      by (simp only: sp hd)
    then have "Clean (render r out @ ''/'') = render (hd (render r out @ ''/'') = CHR ''/'') out"
      using ne' by (intro Clean_eq)
    then show ?thesis by (simp only: hd)
  qed
qed

lemma render_snoc:
  "render r (cs @ [a]) =
     (if cs = [] then (if r then CHR ''/'' # a else a) else render r cs @ CHR ''/'' # a)"
  by (simp add: render_def StringsJoin_snoc)

lemma plain_hd: "plain n \<Longrightarrow> n \<noteq> [] \<and> hd n \<noteq> CHR ''/''"
  by (cases n) (auto simp: plain_def)

lemma Join_names:
  assumes "names \<noteq> []" "\<forall>n \<in> set names. plain n"
  shows "Join (m # names) = render (root_of m) (comps_of m @ names)"
proof -
  obtain n ns where names: "names = n # ns"
    using assms(1) by (cases names) auto
  have n: "n \<noteq> []" "hd n \<noteq> CHR ''/''"
    using assms(2) plain_hd [of n] by (simp_all add: names)
  have free: "\<forall>c \<in> set names. CHR ''/'' \<notin> set c"
    using assms(2) by (simp add: plain_def)
  have sp: "Split (StringsJoin names ''/'') CHR ''/'' = names"
    using assms(1) free by (rule Split_StringsJoin)
  show ?thesis
  proof (cases "m = []")
    case True
    let ?p = "StringsJoin names ''/''"
    have p: "?p \<noteq> []" "(hd ?p = CHR ''/'') = False"
      using n by (simp_all add: names StringsJoin_ne hd_StringsJoin)
    have "foldl (clean_step False) ([], 0) names = (names, 0)"
      using assms(2) foldl_plain [of names False "[]" 0] by simp
    then have "foldl (clean_step (hd ?p = CHR ''/'')) ([], 0) (Split ?p CHR ''/'') = (names, 0)"
      by (simp only: sp p)
    then have "Clean ?p = render (hd ?p = CHR ''/'') names"
      using p(1) by (intro Clean_eq)
    then have "Clean ?p = render False names"
      by (simp only: p)
    moreover have "Join (m # names) = Clean ?p"
      using True n by (simp add: Join_def names)
    ultimately show ?thesis
      using True by (simp add: root_of_def comps_of_def)
  next
    case False
    let ?p = "StringsJoin (m # names) ''/''"
    let ?r = "hd m = CHR ''/''"
    obtain out dd where st: "foldl (clean_step ?r) ([], 0) (Split m CHR ''/'') = (out, dd)"
      by (cases "foldl (clean_step ?r) ([], 0) (Split m CHR ''/'')") auto
    have pe: "?p = m @ CHR ''/'' # StringsJoin names ''/''"
      by (simp add: names)
    have p: "?p \<noteq> []" "(hd ?p = CHR ''/'') = ?r"
      using False by (simp_all add: pe)
    have "Split ?p CHR ''/'' = Split m CHR ''/'' @ names"
      unfolding pe Split_append sp ..
    then have "foldl (clean_step ?r) ([], 0) (Split ?p CHR ''/'') = (out @ names, dd)"
      using assms(2) st by (simp add: foldl_plain del: clean_step.simps)
    then have "foldl (clean_step (hd ?p = CHR ''/'')) ([], 0) (Split ?p CHR ''/'') =
        (out @ names, dd)"
      by (simp only: p)
    then have "Clean ?p = render (hd ?p = CHR ''/'') (out @ names)"
      using p(1) by (intro Clean_eq)
    then have "Clean ?p = render ?r (out @ names)"
      by (simp only: p)
    moreover have "Join (m # names) = Clean ?p"
      using False by (simp add: Join_def)
    moreover have "comps_of m = out" "root_of m = ?r"
      using False st by (simp_all add: comps_of_def root_of_def)
    ultimately show ?thesis by simp
  qed
qed

lemma strip_last_element:
  "c \<notin> set a \<Longrightarrow> rev (dropWhile (\<lambda>x. x \<noteq> c) (rev (p @ c # a))) = p @ [c]"
  by (induction a rule: rev_induct) auto

lemma strip_only_element:
  "c \<notin> set a \<Longrightarrow> rev (dropWhile (\<lambda>x. x \<noteq> c) (rev a)) = []"
  by (induction a rule: rev_induct) auto

lemma Dir_render_snoc:
  assumes "clean_inv r (cs, dd)" "plain a"
  shows "Dir (render r (cs @ [a])) = render r cs"
proof -
  have a: "CHR ''/'' \<notin> set a" using assms(2) by (simp add: plain_def)
  show ?thesis
  proof (cases "cs = []")
    case True
    show ?thesis
    proof (cases r)
      case True
      have "render r (cs @ [a]) = CHR ''/'' # a"
        using \<open>cs = []\<close> True by (simp add: render_def)
      then have "Dir (render r (cs @ [a])) = Clean ''/''"
        unfolding Dir_def using strip_last_element [OF a, of "[]"] by simp
      then show ?thesis
        using \<open>cs = []\<close> True by (simp add: Clean_def render_def)
    next
      case False
      have "render r (cs @ [a]) = a"
        using \<open>cs = []\<close> False by (simp add: render_def)
      then have "Dir (render r (cs @ [a])) = Clean []"
        unfolding Dir_def by (simp only: strip_only_element [OF a])
      then show ?thesis
        using \<open>cs = []\<close> False by (simp add: Clean_def render_def)
    qed
  next
    case False
    have "render r (cs @ [a]) = render r cs @ CHR ''/'' # a"
      using False by (simp add: render_snoc)
    then have "Dir (render r (cs @ [a])) = Clean (render r cs @ ''/'')"
      unfolding Dir_def by (simp only: strip_last_element [OF a])
    then show ?thesis
      using Clean_render(2) [OF assms(1) False] by simp
  qed
qed

subsection \<open>The file system\<close>

lemma prefix_strip: "prefix (rev (dropWhile P (rev xs))) xs"
  using suffix_dropWhile [of P "rev xs"] by (simp add: suffix_to_prefix)

lemma parent_of_prefix: "parent_of path = Some p \<Longrightarrow> prefix p path"
proof -
  let ?i = "rev (dropWhile (\<lambda>c. c = CHR ''/'') (rev path))"
  let ?j = "rev (dropWhile (\<lambda>c. c \<noteq> CHR ''/'') (rev ?i))"
  assume "parent_of path = Some p"
  then have p: "p = butlast ?j"
    by (auto simp: parent_of_def Let_def split: if_splits)
  have "prefix (butlast ?j) ?j" by (rule prefixeq_butlast)
  also have "prefix ?j ?i" by (rule prefix_strip)
  also have "prefix ?i path" by (rule prefix_strip)
  finally show ?thesis using p by simp
qed

lemma Mkdir_result: "Mkdir fs p = Inr fs' \<Longrightarrow> fs' = fs(p \<mapsto> Directory)"
  by (auto simp: Mkdir_def split: if_splits option.splits node.splits)

lemma MkdirAll_files_directory:
  "MkdirAll_files fs p = Inr fs' \<Longrightarrow> fs' p = Some Directory"
  by (subst (asm) MkdirAll_files.simps)
    (auto split: option.splits node.splits sum.splits dest: Mkdir_result)

lemma MkdirAll_files_frame:
  "MkdirAll_files fs p = Inr fs' \<Longrightarrow> \<not> prefix q p \<Longrightarrow> fs' q = fs q"
proof (induction fs p arbitrary: fs' rule: MkdirAll_files.induct)
  case (1 fs path)
  have neq: "q \<noteq> path" using "1.prems"(2) by auto
  show ?case
  proof (cases "fs path")
    case (Some n)
    then show ?thesis
      using "1.prems"(1) by (subst (asm) MkdirAll_files.simps) (auto split: node.splits)
  next
    case None
    show ?thesis
    proof (cases "parent_of path")
      case np: None
      then have "Mkdir fs path = Inr fs'"
        using "1.prems"(1) None by (subst (asm) MkdirAll_files.simps) simp
      then show ?thesis using neq by (auto dest: Mkdir_result)
    next
      case (Some parent)
      then obtain fs1 where r: "MkdirAll_files fs parent = Inr fs1" and m: "Mkdir fs1 path = Inr fs'"
        using "1.prems"(1) None
        by (subst (asm) MkdirAll_files.simps) (auto split: sum.splits)
      have "\<not> prefix q parent"
        using "1.prems"(2) parent_of_prefix [OF Some] by (meson prefix_order.trans)
      then have "fs1 q = fs q"
        using "1.IH" [OF None Some r] by simp
      then show ?thesis using m neq by (auto dest: Mkdir_result)
    qed
  qed
qed

lemma creatable_existing: "fs path = Some Directory \<Longrightarrow> creatable fs path"
  by (simp add: creatable_def MkdirAll_files.simps)

lemma MkdirAll_files_again:
  "MkdirAll_files fs p = Inr fs' \<Longrightarrow> MkdirAll_files fs' p = Inr fs'"
  by (subst MkdirAll_files.simps) (simp add: MkdirAll_files_directory)

lemma isHexDigit_not_special:
  "isHexDigit c \<Longrightarrow> c \<noteq> CHR '':'' \<and> c \<noteq> CHR ''/'' \<and> c \<noteq> CHR ''.''"
  by (auto simp: isHexDigit_def)

lemma hex_free:
  "list_all isHexDigit h \<Longrightarrow>
   CHR '':'' \<notin> set h \<and> CHR ''/'' \<notin> set h \<and> CHR ''.'' \<notin> set h"
  using isHexDigit_not_special by (auto simp: list_all_iff)

lemma ReplaceAll_append:
  "ReplaceAll (a @ b) old new = ReplaceAll a old new @ ReplaceAll b old new"
  by (simp add: ReplaceAll_def)

lemma MatchDigest_shape:
  assumes "MatchDigest d"
  shows "d = ''sha256'' @ [d ! 6] @ drop 7 d"
    and "d ! 6 = CHR '':'' \<or> d ! 6 = CHR ''-''"
    and "length (drop 7 d) = 64" and "list_all isHexDigit (drop 7 d)"
proof -
  have m: "length d = 71" "take 6 d = ''sha256''" "d ! 6 = CHR '':'' \<or> d ! 6 = CHR ''-''"
    "list_all isHexDigit (drop 7 d)"
    using assms by (simp_all add: MatchDigest_def)
  have "d = take 6 d @ drop 6 d" by simp
  also have "drop 6 d = d ! 6 # drop 7 d"
    using m(1) Cons_nth_drop_Suc [of 6 d] by simp
  finally show "d = ''sha256'' @ [d ! 6] @ drop 7 d"
    using m(2) by simp
  show "d ! 6 = CHR '':'' \<or> d ! 6 = CHR ''-''" by (rule m(3))
  show "length (drop 7 d) = 64" using m(1) by simp
  show "list_all isHexDigit (drop 7 d)" by (rule m(4))
qed

lemma MatchDigest_canonical:
  assumes "MatchDigest d"
  shows "ReplaceAll d CHR '':'' ''-'' = canonical d"
proof -
  have h: "ReplaceAll (drop 7 d) CHR '':'' ''-'' = drop 7 d"
    using hex_free [OF MatchDigest_shape(4) [OF assms]] by (simp add: ReplaceAll_absent)
  have s: "ReplaceAll [d ! 6] CHR '':'' ''-'' = ''-''"
    using MatchDigest_shape(2) [OF assms] by (auto simp: ReplaceAll_def)
  have "ReplaceAll d CHR '':'' ''-'' =
      ReplaceAll (''sha256'' @ [d ! 6] @ drop 7 d) CHR '':'' ''-''"
    using MatchDigest_shape(1) [OF assms] by simp
  also have "\<dots> = ReplaceAll ''sha256'' CHR '':'' ''-'' @ ReplaceAll [d ! 6] CHR '':'' ''-'' @
      ReplaceAll (drop 7 d) CHR '':'' ''-''"
    by (simp only: ReplaceAll_append)
  also have "\<dots> = ''sha256-'' @ drop 7 d"
    unfolding h s by (simp add: ReplaceAll_def)
  finally show ?thesis by (simp add: canonical_def)
qed

lemma plain_shard:
  assumes "list_all isHexDigit h" "length h = 64"
  shows "plain (take 2 h)" and "plain (''sha256-'' @ h)"
proof -
  obtain a b t where h: "h = a # b # t"
    using assms(2) by (cases h; cases "tl h") auto
  have "isHexDigit a" "isHexDigit b" using assms(1) by (simp_all add: h)
  then show "plain (take 2 h)"
    using isHexDigit_not_special by (auto simp: plain_def h)
  show "plain (''sha256-'' @ h)"
    using hex_free [OF assms(1)] by (simp add: plain_def)
qed

lemma plain_blobs: "plain ''blobs''"
  by (simp add: plain_def)

subsection \<open>The blob path resolver\<close>

lemma clean_inv_append:
  assumes "clean_inv r (cs, dd)" "\<forall>n \<in> set names. plain n"
  shows "clean_inv r (cs @ names, dd)"
proof -
  have "clean_inv r (foldl (clean_step r) (cs, dd) names)"
    using assms by (intro foldl_inv) (auto simp: plain_def)
  then show ?thesis
    using assms(2) by (simp add: foldl_plain del: clean_step.simps)
qed

lemma render_append:
  "cs \<noteq> [] \<Longrightarrow>
   render r (cs @ names) = render r cs @ concat (map (\<lambda>n. CHR ''/'' # n) names)"
proof (induction names rule: rev_induct)
  case Nil
  then show ?case by simp
next
  case (snoc a names)
  have "render r (cs @ names @ [a]) = render r ((cs @ names) @ [a])" by simp
  also have "\<dots> = render r (cs @ names) @ CHR ''/'' # a"
    using snoc.prems by (simp only: render_snoc) simp
  finally show ?case using snoc by simp
qed

text \<open>The three paths of the blob resolver in closed form.\<close>

lemma blob_paths:
  assumes "MatchDigest d"
  shows "sharded_path mdir d =
      render (root_of mdir) (comps_of mdir @ [''blobs'', take 2 (drop 7 d), canonical d])"
    and "legacy_path mdir d = render (root_of mdir) (comps_of mdir @ [''blobs'', canonical d])"
    and "Dir (sharded_path mdir d) =
      render (root_of mdir) (comps_of mdir @ [''blobs'', take 2 (drop 7 d)])"
proof -
  let ?h = "drop 7 d"
  have pl: "plain ''blobs''" "plain (take 2 ?h)" "plain (canonical d)"
    using plain_shard [OF MatchDigest_shape(4) [OF assms] MatchDigest_shape(3) [OF assms]]
    by (simp_all add: plain_blobs canonical_def)
  show s: "sharded_path mdir d =
      render (root_of mdir) (comps_of mdir @ [''blobs'', take 2 ?h, canonical d])"
    unfolding sharded_path_def using pl by (intro Join_names) simp_all
  show "legacy_path mdir d = render (root_of mdir) (comps_of mdir @ [''blobs'', canonical d])"
    unfolding legacy_path_def using pl by (intro Join_names) simp_all
  obtain dd where inv: "clean_inv (root_of mdir) (comps_of mdir, dd)"
    using comps_inv by blast
  have "clean_inv (root_of mdir) (comps_of mdir @ [''blobs'', take 2 ?h], dd)"
    using inv pl by (intro clean_inv_append) simp_all
  then have "Dir (render (root_of mdir) ((comps_of mdir @ [''blobs'', take 2 ?h]) @ [canonical d])) =
      render (root_of mdir) (comps_of mdir @ [''blobs'', take 2 ?h])"
    using pl(3) by (rule Dir_render_snoc)
  then show "Dir (sharded_path mdir d) =
      render (root_of mdir) (comps_of mdir @ [''blobs'', take 2 ?h])"
    unfolding s by simp
qed

lemma blobs_root: "Join [mdir, ''blobs''] = render (root_of mdir) (comps_of mdir @ [''blobs''])"
  using plain_blobs by (intro Join_names) simp_all

lemma legacy_not_created:
  assumes "MatchDigest d"
  shows "\<not> prefix (legacy_path mdir d) (Dir (sharded_path mdir d))"
proof
  let ?r = "root_of mdir" and ?cs = "comps_of mdir @ [''blobs'']"
  assume "prefix (legacy_path mdir d) (Dir (sharded_path mdir d))"
  then have "length (legacy_path mdir d) \<le> length (Dir (sharded_path mdir d))"
    by (rule prefix_length_le)
  moreover have "legacy_path mdir d = render ?r ?cs @ CHR ''/'' # canonical d"
    using blob_paths(2) [OF assms, of mdir] render_snoc [of ?r ?cs "canonical d"] by simp
  moreover have "Dir (sharded_path mdir d) = render ?r ?cs @ CHR ''/'' # take 2 (drop 7 d)"
    using blob_paths(3) [OF assms, of mdir] render_snoc [of ?r ?cs "take 2 (drop 7 d)"] by simp
  ultimately show False
    using MatchDigest_shape(3) [OF assms] by (simp add: canonical_def)
qed

lemma MkdirAll_eq:
  "MkdirAll w path =
     (case MkdirAll_files (files w) path of
        Inl e \<Rightarrow> (Some e, w\<lparr>trace := trace w @ [MkdirAllCall path]\<rparr>)
      | Inr fs \<Rightarrow> (None, w\<lparr>trace := trace w @ [MkdirAllCall path], files := fs\<rparr>))"
  by (simp add: MkdirAll_def Let_def split: sum.splits)

lemma GetBlobsPath_match:
  assumes "MatchDigest d"
  shows "GetBlobsPath (Inr mdir) w d =
     (case MkdirAll w (Dir (sharded_path mdir d)) of
        (Some e, w') \<Rightarrow> (Error (NotTraversable e), w')
      | (None, w') \<Rightarrow>
          (case Stat w' (legacy_path mdir d) of
             (True, w'') \<Rightarrow> (Return (legacy_path mdir d), w'')
           | (False, w'') \<Rightarrow> (Return (sharded_path mdir d), w'')))"
proof -
  have c: "ReplaceAll d CHR '':'' ''-'' = canonical d"
    by (rule MatchDigest_canonical) (rule assms)
  have ne: "canonical d \<noteq> []" by (simp add: canonical_def)
  have t: "TrimPrefix (canonical d) ''sha256-'' = drop 7 d"
    by (simp add: TrimPrefix_def canonical_def)
  have s: "slice_to (drop 7 d) 2 = Some (take 2 (drop 7 d))"
    using MatchDigest_shape(3) [OF assms] by (simp add: slice_to_def)
  show ?thesis
    unfolding GetBlobsPath_def Let_def c t s sharded_path_def legacy_path_def
    using assms ne by simp
qed

lemma GetBlobsPath_resolved:
  assumes "MatchDigest d" "creatable (files w) (Dir (sharded_path mdir d))"
  shows "fst (GetBlobsPath (Inr mdir) w d) =
     Return (if files w (legacy_path mdir d) \<noteq> None then legacy_path mdir d
             else sharded_path mdir d)"
proof -
  obtain fs' where mk: "MkdirAll_files (files w) (Dir (sharded_path mdir d)) = Inr fs'"
    using assms(2) by (auto simp: creatable_def split: sum.splits)
  have "fs' (legacy_path mdir d) = files w (legacy_path mdir d)"
    using mk legacy_not_created [OF assms(1)] by (rule MkdirAll_files_frame)
  then show ?thesis
    unfolding GetBlobsPath_match [OF assms(1)] MkdirAll_eq mk
    by (simp add: Stat_def)
qed

lemma Clean_comps: "m \<noteq> [] \<Longrightarrow> Clean m = render (root_of m) (comps_of m)"
  by (simp add: Clean_def root_of_def comps_of_def Let_def split: prod.splits)

lemma Join_clean_root:
  assumes "Clean mdir = mdir" "mdir \<noteq> ''/''" "mdir \<noteq> ''.''"
    and "names \<noteq> []" "\<forall>n \<in> set names. plain n"
  shows "Join (mdir # names) = mdir @ concat (map (\<lambda>n. CHR ''/'' # n) names)"
proof -
  have ne: "mdir \<noteq> []"
    using assms(1) by (auto simp: Clean_def)
  have m: "render (root_of mdir) (comps_of mdir) = mdir"
    using Clean_comps [OF ne] assms(1) by simp
  have "comps_of mdir \<noteq> []"
    using m assms(2,3) by (auto simp: render_def split: if_splits)
  then show ?thesis
    using Join_names [OF assms(4,5), of mdir] m by (simp add: render_append)
qed

lemma legacy_sharded_distinct:
  assumes "MatchDigest d"
  shows "legacy_path mdir d \<noteq> sharded_path mdir d"
proof -
  let ?r = "root_of mdir" and ?cs = "comps_of mdir @ [''blobs'']"
  have "legacy_path mdir d = render ?r ?cs @ CHR ''/'' # canonical d"
    using blob_paths(2) [OF assms, of mdir] render_snoc [of ?r ?cs "canonical d"] by simp
  moreover have "sharded_path mdir d =
      render ?r ?cs @ CHR ''/'' # take 2 (drop 7 d) @ CHR ''/'' # canonical d"
    using blob_paths(1) [OF assms, of mdir]
      render_append [of ?cs ?r "[take 2 (drop 7 d), canonical d]"] by simp
  ultimately have "length (legacy_path mdir d) < length (sharded_path mdir d)"
    by simp
  then show ?thesis by auto
qed

text \<open>
  A models root, two digests that differ in the case of their digits, and their paths,
  for the concrete instances below.
\<close>

lemma example_digest:
  "MatchDigest ''sha256:aaaaaaaaaaaaaaaaaaaaaaaaaaaaaaaaaaaaaaaaaaaaaaaaaaaaaaaaaaaaaaaa''"
  "MatchDigest ''sha256:AAAAAAAAAAAAAAAAAAAAAAAAAAAAAAAAAAAAAAAAAAAAAAAAAAAAAAAAAAAAAAAA''"
  by (simp_all add: MatchDigest_def isHexDigit_def)

lemma example_root: "comps_of ''/m'' = [''m'']" "root_of ''/m'' = True" "Clean ''/m'' = ''/m''"
  by (simp_all add: comps_of_def root_of_def Clean_def render_def)

lemma example_paths:
  "sharded_path ''/m'' ''sha256:aaaaaaaaaaaaaaaaaaaaaaaaaaaaaaaaaaaaaaaaaaaaaaaaaaaaaaaaaaaaaaaa'' =
     ''/m/blobs/aa/sha256-aaaaaaaaaaaaaaaaaaaaaaaaaaaaaaaaaaaaaaaaaaaaaaaaaaaaaaaaaaaaaaaa''"
  "legacy_path ''/m'' ''sha256:aaaaaaaaaaaaaaaaaaaaaaaaaaaaaaaaaaaaaaaaaaaaaaaaaaaaaaaaaaaaaaaa'' =
     ''/m/blobs/sha256-aaaaaaaaaaaaaaaaaaaaaaaaaaaaaaaaaaaaaaaaaaaaaaaaaaaaaaaaaaaaaaaa''"
  "Dir ''/m/blobs/aa/sha256-aaaaaaaaaaaaaaaaaaaaaaaaaaaaaaaaaaaaaaaaaaaaaaaaaaaaaaaaaaaaaaaa'' =
     ''/m/blobs/aa''"
  "sharded_path ''/m'' ''sha256:AAAAAAAAAAAAAAAAAAAAAAAAAAAAAAAAAAAAAAAAAAAAAAAAAAAAAAAAAAAAAAAA'' =
     ''/m/blobs/AA/sha256-AAAAAAAAAAAAAAAAAAAAAAAAAAAAAAAAAAAAAAAAAAAAAAAAAAAAAAAAAAAAAAAA''"
  "legacy_path ''/m'' ''sha256:AAAAAAAAAAAAAAAAAAAAAAAAAAAAAAAAAAAAAAAAAAAAAAAAAAAAAAAAAAAAAAAA'' =
     ''/m/blobs/sha256-AAAAAAAAAAAAAAAAAAAAAAAAAAAAAAAAAAAAAAAAAAAAAAAAAAAAAAAAAAAAAAAA''"
  "Dir ''/m/blobs/AA/sha256-AAAAAAAAAAAAAAAAAAAAAAAAAAAAAAAAAAAAAAAAAAAAAAAAAAAAAAAAAAAAAAAA'' =
     ''/m/blobs/AA''"
  "Join [''/m'', ''blobs''] = ''/m/blobs''"
proof -
  let ?a = "''sha256:aaaaaaaaaaaaaaaaaaaaaaaaaaaaaaaaaaaaaaaaaaaaaaaaaaaaaaaaaaaaaaaa''"
  let ?A = "''sha256:AAAAAAAAAAAAAAAAAAAAAAAAAAAAAAAAAAAAAAAAAAAAAAAAAAAAAAAAAAAAAAAA''"
  show s: "sharded_path ''/m'' ?a =
     ''/m/blobs/aa/sha256-aaaaaaaaaaaaaaaaaaaaaaaaaaaaaaaaaaaaaaaaaaaaaaaaaaaaaaaaaaaaaaaa''"
    unfolding blob_paths(1) [OF example_digest(1)] example_root
    by (simp add: render_def canonical_def)
  show "legacy_path ''/m'' ?a =
     ''/m/blobs/sha256-aaaaaaaaaaaaaaaaaaaaaaaaaaaaaaaaaaaaaaaaaaaaaaaaaaaaaaaaaaaaaaaa''"
    unfolding blob_paths(2) [OF example_digest(1)] example_root
    by (simp add: render_def canonical_def)
  have "Dir (sharded_path ''/m'' ?a) = ''/m/blobs/aa''"
    unfolding blob_paths(3) [OF example_digest(1)] example_root by (simp add: render_def)
  then show "Dir ''/m/blobs/aa/sha256-aaaaaaaaaaaaaaaaaaaaaaaaaaaaaaaaaaaaaaaaaaaaaaaaaaaaaaaaaaaaaaaa'' =
     ''/m/blobs/aa''"
    by (simp only: s)
  show S: "sharded_path ''/m'' ?A =
     ''/m/blobs/AA/sha256-AAAAAAAAAAAAAAAAAAAAAAAAAAAAAAAAAAAAAAAAAAAAAAAAAAAAAAAAAAAAAAAA''"
    unfolding blob_paths(1) [OF example_digest(2)] example_root
    by (simp add: render_def canonical_def)
  show "legacy_path ''/m'' ?A =
     ''/m/blobs/sha256-AAAAAAAAAAAAAAAAAAAAAAAAAAAAAAAAAAAAAAAAAAAAAAAAAAAAAAAAAAAAAAAA''"
    unfolding blob_paths(2) [OF example_digest(2)] example_root
    by (simp add: render_def canonical_def)
  have "Dir (sharded_path ''/m'' ?A) = ''/m/blobs/AA''"
    unfolding blob_paths(3) [OF example_digest(2)] example_root by (simp add: render_def)
  then show "Dir ''/m/blobs/AA/sha256-AAAAAAAAAAAAAAAAAAAAAAAAAAAAAAAAAAAAAAAAAAAAAAAAAAAAAAAAAAAAAAAA'' =
     ''/m/blobs/AA''"
    by (simp only: S)
  show "Join [''/m'', ''blobs''] = ''/m/blobs''"
    unfolding blobs_root example_root by (simp add: render_def)
qed

lemma example_mkdir:
  "MkdirAll_files Map.empty ''/m/blobs/aa'' =
     Inr [''/m'' \<mapsto> Directory, ''/m/blobs'' \<mapsto> Directory, ''/m/blobs/aa'' \<mapsto> Directory]"
  "MkdirAll_files Map.empty ''/m/blobs/AA'' =
     Inr [''/m'' \<mapsto> Directory, ''/m/blobs'' \<mapsto> Directory, ''/m/blobs/AA'' \<mapsto> Directory]"
  "MkdirAll_files Map.empty ''/m/blobs'' = Inr [''/m'' \<mapsto> Directory, ''/m/blobs'' \<mapsto> Directory]"
  "MkdirAll_files [''/m/blobs'' \<mapsto> File] ''/m/blobs'' = Inl ENOTDIR"
  by (simp_all add: MkdirAll_files.simps parent_of_def Mkdir_def)

text \<open>
  Claim C1, as far as it holds. For a digest that matches the pattern, when the shard
  directory exists or can be created, \<open>GetBlobsPath\<close> returns the unsharded legacy path
  if that path exists in the file system at the time of the call (also when the shard
  directory exists too), and the sharded path otherwise; the two paths are different.
\<close>

theorem GetBlobsPath_legacy_first:
  assumes "MatchDigest digest" and "creatable (files w) (Dir (sharded_path mdir digest))"
  shows "fst (GetBlobsPath (Inr mdir) w digest) =
      Return (if files w (legacy_path mdir digest) \<noteq> None then legacy_path mdir digest
              else sharded_path mdir digest) \<and>
    legacy_path mdir digest \<noteq> sharded_path mdir digest"
proof -
  let ?old = "legacy_path mdir digest" and ?path = "sharded_path mdir digest"
  obtain fs' where mk: "MkdirAll_files (files w) (Dir ?path) = Inr fs'"
    using assms(2) by (auto simp: creatable_def split: sum.splits)
  have unchanged: "fs' ?old = files w ?old"
    using mk legacy_not_created [OF assms(1)] by (rule MkdirAll_files_frame)
  have "fst (GetBlobsPath (Inr mdir) w digest) =
      Return (if fs' ?old \<noteq> None then ?old else ?path)"
    unfolding GetBlobsPath_match [OF assms(1)] MkdirAll_eq mk by (simp add: Stat_def)
  then show ?thesis
    using unchanged legacy_sharded_distinct [OF assms(1)] by simp
qed

theorem GetBlobsPath_legacy_first_witness:
  "MatchDigest ''sha256:aaaaaaaaaaaaaaaaaaaaaaaaaaaaaaaaaaaaaaaaaaaaaaaaaaaaaaaaaaaaaaaa'' \<and>
   creatable
     [''/m/blobs/aa'' \<mapsto> Directory,
      ''/m/blobs/sha256-aaaaaaaaaaaaaaaaaaaaaaaaaaaaaaaaaaaaaaaaaaaaaaaaaaaaaaaaaaaaaaaa'' \<mapsto> File]
     ''/m/blobs/aa'' \<and>
   fst (GetBlobsPath (Inr ''/m'')
     \<lparr>files = [''/m/blobs/aa'' \<mapsto> Directory,
        ''/m/blobs/sha256-aaaaaaaaaaaaaaaaaaaaaaaaaaaaaaaaaaaaaaaaaaaaaaaaaaaaaaaaaaaaaaaa'' \<mapsto> File],
      trace = []\<rparr>
     ''sha256:aaaaaaaaaaaaaaaaaaaaaaaaaaaaaaaaaaaaaaaaaaaaaaaaaaaaaaaaaaaaaaaa'') =
   Return ''/m/blobs/sha256-aaaaaaaaaaaaaaaaaaaaaaaaaaaaaaaaaaaaaaaaaaaaaaaaaaaaaaaaaaaaaaaa''"
  using GetBlobsPath_legacy_first [of
      "''sha256:aaaaaaaaaaaaaaaaaaaaaaaaaaaaaaaaaaaaaaaaaaaaaaaaaaaaaaaaaaaaaaaa''"
      "\<lparr>files = [''/m/blobs/aa'' \<mapsto> Directory,
         ''/m/blobs/sha256-aaaaaaaaaaaaaaaaaaaaaaaaaaaaaaaaaaaaaaaaaaaaaaaaaaaaaaaaaaaaaaaa'' \<mapsto> File],
       trace = []\<rparr>" "''/m''"]
  by (simp add: example_digest example_paths creatable_existing)

text \<open>
  Without that condition the claim fails: the shard directory is created before the
  legacy path is looked at, so when it cannot be created (here \<open>aa\<close> under \<open>blobs\<close> is
  a file) the call returns the error, although the legacy blob exists.
\<close>

theorem GetBlobsPath_legacy_blocked:
  "MatchDigest ''sha256:aaaaaaaaaaaaaaaaaaaaaaaaaaaaaaaaaaaaaaaaaaaaaaaaaaaaaaaaaaaaaaaa'' \<and>
   legacy_path ''/m'' ''sha256:aaaaaaaaaaaaaaaaaaaaaaaaaaaaaaaaaaaaaaaaaaaaaaaaaaaaaaaaaaaaaaaa'' =
     ''/m/blobs/sha256-aaaaaaaaaaaaaaaaaaaaaaaaaaaaaaaaaaaaaaaaaaaaaaaaaaaaaaaaaaaaaaaa'' \<and>
   fst (GetBlobsPath (Inr ''/m'')
     \<lparr>files = [''/m/blobs/aa'' \<mapsto> File,
        ''/m/blobs/sha256-aaaaaaaaaaaaaaaaaaaaaaaaaaaaaaaaaaaaaaaaaaaaaaaaaaaaaaaaaaaaaaaa'' \<mapsto> File],
      trace = []\<rparr>
     ''sha256:aaaaaaaaaaaaaaaaaaaaaaaaaaaaaaaaaaaaaaaaaaaaaaaaaaaaaaaaaaaaaaaa'') =
   Error (NotTraversable ENOTDIR)"
proof -
  have mk: "MkdirAll_files
      [''/m/blobs/aa'' \<mapsto> File,
       ''/m/blobs/sha256-aaaaaaaaaaaaaaaaaaaaaaaaaaaaaaaaaaaaaaaaaaaaaaaaaaaaaaaaaaaaaaaa'' \<mapsto> File]
      ''/m/blobs/aa'' = Inl ENOTDIR"
    by (simp add: MkdirAll_files.simps)
  show ?thesis
    unfolding GetBlobsPath_match [OF example_digest(1)] MkdirAll_eq
    by (simp add: example_digest example_paths mk)
qed

lemma GetBlobsPath_trace:
  assumes "MatchDigest d"
  shows "prefix (trace w @ [MkdirAllCall (Dir (sharded_path mdir d))])
     (trace (snd (GetBlobsPath (Inr mdir) w d)))"
  unfolding GetBlobsPath_match [OF assms] MkdirAll_eq
  by (simp add: Stat_def split: sum.splits bool.splits)

text \<open>
  Claim C2. For a digest that matches the pattern, \<open>GetBlobsPath\<close> canonicalises it by
  replacing \<open>:\<close> with \<open>-\<close> (the canonical digest has no \<open>:\<close>), strips the prefix
  \<open>sha256-\<close> to get the 64 hexadecimal digits, and computes the sharded candidate path
  from the models root, \<open>blobs\<close>, the first two digits and the canonical digest: it is
  the directory of that path that is created, and that path that is returned when no
  legacy blob exists. For a root that is a cleaned path other than \<open>/\<close> and \<open>.\<close>, the
  candidate is literally \<open><root>/blobs/<first two digits>/<canonical digest>\<close>.
\<close>

theorem GetBlobsPath_sharded_candidate:
  assumes "MatchDigest digest"
  shows "ReplaceAll digest CHR '':'' ''-'' = canonical digest \<and>
    CHR '':'' \<notin> set (canonical digest) \<and>
    TrimPrefix (canonical digest) ''sha256-'' = drop 7 digest \<and>
    length (drop 7 digest) = 64 \<and> list_all isHexDigit (drop 7 digest) \<and>
    prefix (trace w @ [MkdirAllCall (Dir (sharded_path mdir digest))])
      (trace (snd (GetBlobsPath (Inr mdir) w digest))) \<and>
    (creatable (files w) (Dir (sharded_path mdir digest)) \<and>
       files w (legacy_path mdir digest) = None \<longrightarrow>
     fst (GetBlobsPath (Inr mdir) w digest) = Return (sharded_path mdir digest)) \<and>
    (Clean mdir = mdir \<and> mdir \<noteq> ''/'' \<and> mdir \<noteq> ''.'' \<longrightarrow>
     sharded_path mdir digest =
       mdir @ ''/blobs/'' @ take 2 (drop 7 digest) @ ''/'' @ canonical digest)"
proof -
  let ?h = "drop 7 digest"
  have hex: "length ?h = 64" "list_all isHexDigit ?h"
    using MatchDigest_shape(3,4) [OF assms] by simp_all
  have pl: "plain ''blobs''" "plain (take 2 ?h)" "plain (canonical digest)"
    using plain_shard [OF hex(2) hex(1)] by (simp_all add: plain_blobs canonical_def)
  have "CHR '':'' \<notin> set (canonical digest)"
    using hex_free [OF hex(2)] by (simp add: canonical_def)
  moreover have "TrimPrefix (canonical digest) ''sha256-'' = ?h"
    by (simp add: TrimPrefix_def canonical_def)
  moreover have "creatable (files w) (Dir (sharded_path mdir digest)) \<and>
       files w (legacy_path mdir digest) = None \<longrightarrow>
     fst (GetBlobsPath (Inr mdir) w digest) = Return (sharded_path mdir digest)"
    using GetBlobsPath_resolved [OF assms, of w mdir] by simp
  moreover have "Clean mdir = mdir \<and> mdir \<noteq> ''/'' \<and> mdir \<noteq> ''.'' \<longrightarrow>
     sharded_path mdir digest =
       mdir @ ''/blobs/'' @ take 2 ?h @ ''/'' @ canonical digest"
    using Join_clean_root [of mdir "[''blobs'', take 2 ?h, canonical digest]"] pl
    by (simp add: sharded_path_def)
  ultimately show ?thesis
    using MatchDigest_canonical [OF assms] hex GetBlobsPath_trace [OF assms, of w mdir]
    by simp
qed

theorem GetBlobsPath_sharded_candidate_witness:
  "MatchDigest ''sha256:aaaaaaaaaaaaaaaaaaaaaaaaaaaaaaaaaaaaaaaaaaaaaaaaaaaaaaaaaaaaaaaa'' \<and>
   creatable Map.empty ''/m/blobs/aa'' \<and>
   fst (GetBlobsPath (Inr ''/m'') \<lparr>files = Map.empty, trace = []\<rparr>
     ''sha256:aaaaaaaaaaaaaaaaaaaaaaaaaaaaaaaaaaaaaaaaaaaaaaaaaaaaaaaaaaaaaaaa'') =
   Return ''/m/blobs/aa/sha256-aaaaaaaaaaaaaaaaaaaaaaaaaaaaaaaaaaaaaaaaaaaaaaaaaaaaaaaaaaaaaaaa''"
  using GetBlobsPath_sharded_candidate [of
      "''sha256:aaaaaaaaaaaaaaaaaaaaaaaaaaaaaaaaaaaaaaaaaaaaaaaaaaaaaaaaaaaaaaaa''"
      "\<lparr>files = Map.empty, trace = []\<rparr>" "''/m''"]
  by (simp add: example_digest example_paths example_mkdir creatable_def)

lemma GetBlobsPath_empty:
  "GetBlobsPath Models w [] =
     (case Models of
        Inl e \<Rightarrow> (Error (ModelsError e), w)
      | Inr mdir \<Rightarrow>
          (case MkdirAll_files (files w) (Join [mdir, ''blobs'']) of
             Inl e \<Rightarrow>
               (Error (NotTraversable e),
                w\<lparr>trace := trace w @ [MkdirAllCall (Join [mdir, ''blobs''])]\<rparr>)
           | Inr fs \<Rightarrow>
               (Return (Join [mdir, ''blobs'']),
                w\<lparr>trace := trace w @ [MkdirAllCall (Join [mdir, ''blobs''])], files := fs\<rparr>)))"
  by (simp add: GetBlobsPath_def ReplaceAll_def MkdirAll_eq Let_def split: sum.splits)

lemma GetBlobsPath_rejected:
  "digest \<noteq> [] \<Longrightarrow> \<not> MatchDigest digest \<Longrightarrow>
   GetBlobsPath Models w digest = (Error ErrInvalidDigestFormat, w)"
  by (simp add: GetBlobsPath_def)

lemma GetBlobsPath_no_root:
  "digest = [] \<or> MatchDigest digest \<Longrightarrow>
   GetBlobsPath (Inl e) w digest = (Error (ModelsError e), w)"
  by (auto simp: GetBlobsPath_def Let_def)

text \<open>What an accepted digest can lead to.\<close>

lemma GetBlobsPath_accepted:
  assumes "digest = [] \<or> MatchDigest digest"
  shows "(\<exists>e. fst (GetBlobsPath Models w digest) = Error (ModelsError e)) \<or>
    (\<exists>e. fst (GetBlobsPath Models w digest) = Error (NotTraversable e)) \<or>
    (\<exists>p. fst (GetBlobsPath Models w digest) = Return p)"
proof (cases Models)
  case (Inl e)
  then show ?thesis using GetBlobsPath_no_root [OF assms] by simp
next
  case (Inr mdir)
  show ?thesis
  proof (cases "digest = []")
    case True
    then show ?thesis
      unfolding Inr True GetBlobsPath_empty by (simp split: sum.splits)
  next
    case False
    then have m: "MatchDigest digest" using assms by simp
    show ?thesis
      unfolding Inr GetBlobsPath_match [OF m] MkdirAll_eq
      by (simp add: Stat_def split: sum.splits bool.splits)
  qed
qed

lemma blobs_root_suffix:
  "Join [mdir, ''blobs''] = ''blobs'' \<or> suffix ''/blobs'' (Join [mdir, ''blobs''])"
  unfolding blobs_root render_snoc by (auto simp: suffix_def)

text \<open>
  Claim C3, as far as it holds. \<open>GetBlobsPath\<close> fails with \<open>ErrInvalidDigestFormat\<close>
  exactly when its argument is not empty and does not match the pattern, and then no call
  to the file system has been made: the world, with its record of calls, is unchanged,
  whatever the models root is. The empty digest is accepted: when the blobs directory
  exists or can be created, the call returns the path of the models root joined with
  \<open>blobs\<close>, a second call in the resulting world returns it again, and that path ends in
  \<open>/blobs\<close> (or is \<open>blobs\<close> itself, for an empty or relative root that cleans to
  nothing).
\<close>

theorem GetBlobsPath_digest_gate:
  "(fst (GetBlobsPath Models w digest) = Error ErrInvalidDigestFormat \<longleftrightarrow>
      digest \<noteq> [] \<and> \<not> MatchDigest digest) \<and>
   (digest \<noteq> [] \<and> \<not> MatchDigest digest \<longrightarrow>
      GetBlobsPath Models w digest = (Error ErrInvalidDigestFormat, w)) \<and>
   (creatable (files w) (Join [mdir, ''blobs'']) \<longrightarrow>
      fst (GetBlobsPath (Inr mdir) w []) = Return (Join [mdir, ''blobs'']) \<and>
      fst (GetBlobsPath (Inr mdir) (snd (GetBlobsPath (Inr mdir) w [])) []) =
        Return (Join [mdir, ''blobs''])) \<and>
   (Join [mdir, ''blobs''] = ''blobs'' \<or> suffix ''/blobs'' (Join [mdir, ''blobs'']))"
proof -
  have gate: "fst (GetBlobsPath Models w digest) = Error ErrInvalidDigestFormat \<longleftrightarrow>
      digest \<noteq> [] \<and> \<not> MatchDigest digest"
  proof (cases "digest \<noteq> [] \<and> \<not> MatchDigest digest")
    case True
    then show ?thesis by (simp add: GetBlobsPath_rejected)
  next
    case False
    then have "digest = [] \<or> MatchDigest digest" by auto
    then show ?thesis
      using GetBlobsPath_accepted [of digest Models w] False by auto
  qed
  have twice: "fst (GetBlobsPath (Inr mdir) w []) = Return (Join [mdir, ''blobs'']) \<and>
      fst (GetBlobsPath (Inr mdir) (snd (GetBlobsPath (Inr mdir) w [])) []) =
        Return (Join [mdir, ''blobs''])"
    if cr: "creatable (files w) (Join [mdir, ''blobs''])"
  proof -
    obtain fs' where mk: "MkdirAll_files (files w) (Join [mdir, ''blobs'']) = Inr fs'"
      using cr by (auto simp: creatable_def split: sum.splits)
    have again: "MkdirAll_files fs' (Join [mdir, ''blobs'']) = Inr fs'"
      using mk by (rule MkdirAll_files_again)
    show ?thesis
      by (simp add: GetBlobsPath_empty mk again)
  qed
  show ?thesis
    using gate twice blobs_root_suffix [of mdir] by (simp add: GetBlobsPath_rejected)
qed

theorem GetBlobsPath_digest_gate_witness:
  "''md5:aaaaaaaaaaaaaaaaaaaaaaaaaaaaaaaa'' \<noteq> [] \<and>
   \<not> MatchDigest ''md5:aaaaaaaaaaaaaaaaaaaaaaaaaaaaaaaa'' \<and>
   GetBlobsPath (Inr ''/m'') \<lparr>files = Map.empty, trace = []\<rparr>
       ''md5:aaaaaaaaaaaaaaaaaaaaaaaaaaaaaaaa'' =
     (Error ErrInvalidDigestFormat, \<lparr>files = Map.empty, trace = []\<rparr>) \<and>
   creatable Map.empty ''/m/blobs'' \<and>
   fst (GetBlobsPath (Inr ''/m'') \<lparr>files = Map.empty, trace = []\<rparr> []) = Return ''/m/blobs'' \<and>
   fst (GetBlobsPath (Inr ''/m'')
          (snd (GetBlobsPath (Inr ''/m'') \<lparr>files = Map.empty, trace = []\<rparr> [])) []) =
     Return ''/m/blobs''"
  using GetBlobsPath_digest_gate [of "Inr ''/m''" "\<lparr>files = Map.empty, trace = []\<rparr>"
      "''md5:aaaaaaaaaaaaaaaaaaaaaaaaaaaaaaaa''" "''/m''"]
  by (simp add: MatchDigest_def example_paths example_mkdir creatable_def)

text \<open>
  The empty digest does not always succeed: the call fails when \<open>blobs\<close> under the
  models root is a file, and when the models root is not available.
\<close>

theorem GetBlobsPath_empty_digest_fails:
  "fst (GetBlobsPath (Inr ''/m'') \<lparr>files = [''/m/blobs'' \<mapsto> File], trace = []\<rparr> []) =
     Error (NotTraversable ENOTDIR) \<and>
   fst (GetBlobsPath (Inl ''$HOME is not defined'') \<lparr>files = Map.empty, trace = []\<rparr> []) =
     Error (ModelsError ''$HOME is not defined'')"
  by (simp add: GetBlobsPath_empty example_paths example_mkdir)

text \<open>
  Claim C10. \<open>GetBlobsPath\<close> never panics: the slice \<open>hex[:2]\<close> is only reached for
  a digest that matched the pattern, and then exactly 64 hexadecimal digits remain after
  the prefix \<open>sha256-\<close> is stripped, so the slice is within bounds.
\<close>

theorem GetBlobsPath_no_panic:
  "fst (GetBlobsPath Models w digest) \<noteq> Panic \<and>
   (MatchDigest digest \<longrightarrow>
     (let hex = TrimPrefix (ReplaceAll digest CHR '':'' ''-'') ''sha256-''
      in length hex = 64 \<and> list_all isHexDigit hex \<and> slice_to hex 2 = Some (take 2 hex)))"
proof -
  have "fst (GetBlobsPath Models w digest) \<noteq> Panic"
  proof (cases "digest \<noteq> [] \<and> \<not> MatchDigest digest")
    case True
    then show ?thesis by (simp add: GetBlobsPath_rejected)
  next
    case False
    then have "digest = [] \<or> MatchDigest digest" by auto
    then show ?thesis
      using GetBlobsPath_accepted [of digest Models w] by auto
  qed
  moreover have "TrimPrefix (ReplaceAll digest CHR '':'' ''-'') ''sha256-'' = drop 7 digest"
    if m: "MatchDigest digest"
    using MatchDigest_canonical [OF m] by (simp add: TrimPrefix_def canonical_def)
  ultimately show ?thesis
    using MatchDigest_shape(3,4) [of digest] by (simp add: Let_def slice_to_def)
qed

theorem GetBlobsPath_no_panic_witness:
  "MatchDigest ''sha256:aaaaaaaaaaaaaaaaaaaaaaaaaaaaaaaaaaaaaaaaaaaaaaaaaaaaaaaaaaaaaaaa'' \<and>
   slice_to (TrimPrefix
       (ReplaceAll ''sha256:aaaaaaaaaaaaaaaaaaaaaaaaaaaaaaaaaaaaaaaaaaaaaaaaaaaaaaaaaaaaaaaa''
          CHR '':'' ''-'') ''sha256-'') 2 = Some ''aa'' \<and>
   fst (GetBlobsPath (Inr ''/m'') \<lparr>files = Map.empty, trace = []\<rparr>
     ''sha256:aaaaaaaaaaaaaaaaaaaaaaaaaaaaaaaaaaaaaaaaaaaaaaaaaaaaaaaaaaaaaaaa'') \<noteq> Panic"
  using GetBlobsPath_no_panic [of "Inr ''/m''" "\<lparr>files = Map.empty, trace = []\<rparr>"
      "''sha256:aaaaaaaaaaaaaaaaaaaaaaaaaaaaaaaaaaaaaaaaaaaaaaaaaaaaaaaaaaaaaaaa''"]
    example_digest(1)
  by (simp add: Let_def ReplaceAll_def TrimPrefix_def)

lemma blob_paths_tail:
  assumes "MatchDigest d"
  shows "suffix (CHR ''/'' # canonical d) (legacy_path mdir d)"
    and "suffix (CHR ''/'' # canonical d) (sharded_path mdir d)"
proof -
  let ?r = "root_of mdir"
  have "legacy_path mdir d =
      render ?r (comps_of mdir @ [''blobs'']) @ CHR ''/'' # canonical d"
    using blob_paths(2) [OF assms, of mdir]
      render_snoc [of ?r "comps_of mdir @ [''blobs'']" "canonical d"] by simp
  then show "suffix (CHR ''/'' # canonical d) (legacy_path mdir d)"
    by (simp add: suffix_def)
  have "sharded_path mdir d =
      render ?r (comps_of mdir @ [''blobs'', take 2 (drop 7 d)]) @ CHR ''/'' # canonical d"
    using blob_paths(1) [OF assms, of mdir]
      render_snoc [of ?r "comps_of mdir @ [''blobs'', take 2 (drop 7 d)]" "canonical d"] by simp
  then show "suffix (CHR ''/'' # canonical d) (sharded_path mdir d)"
    by (simp add: suffix_def)
qed

lemma suffix_same_length:
  "suffix a p \<Longrightarrow> suffix b p \<Longrightarrow> length a = length b \<Longrightarrow> a = b"
  by (auto simp: suffix_def)

lemma case_variants_differ:
  assumes "MatchDigest d1" "MatchDigest d2" "d1 \<noteq> d2" "map lower_hex d1 = map lower_hex d2"
  shows "drop 7 d1 \<noteq> drop 7 d2"
proof
  assume eq: "drop 7 d1 = drop 7 d2"
  have len: "length d1 = 71" "length d2 = 71"
    using assms(1,2) by (simp_all add: MatchDigest_def)
  have sep: "lower_hex (d1 ! 6) = d1 ! 6" "lower_hex (d2 ! 6) = d2 ! 6"
    using MatchDigest_shape(2) [OF assms(1)] MatchDigest_shape(2) [OF assms(2)]
    by (auto simp: lower_hex_def)
  have "map lower_hex d1 ! 6 = map lower_hex d2 ! 6"
    using assms(4) by simp
  then have "d1 ! 6 = d2 ! 6"
    using len sep by simp
  then have "d1 = d2"
    using MatchDigest_shape(1) [OF assms(1)] MatchDigest_shape(1) [OF assms(2)] eq by simp
  then show False using assms(3) by simp
qed

text \<open>
  Claim C9. Two digests that match the pattern and differ only in the letter case of
  their hexadecimal digits resolve to two different paths, each ending in its own digest
  with the case of the input: no case normalisation takes place.
\<close>

theorem GetBlobsPath_case_preserved:
  assumes "MatchDigest d1" "MatchDigest d2" "d1 \<noteq> d2" "map lower_hex d1 = map lower_hex d2"
    and "creatable (files w1) (Dir (sharded_path mdir d1))"
    and "creatable (files w2) (Dir (sharded_path mdir d2))"
  shows "\<exists>p1 p2. fst (GetBlobsPath (Inr mdir) w1 d1) = Return p1 \<and>
    fst (GetBlobsPath (Inr mdir) w2 d2) = Return p2 \<and>
    suffix (''/sha256-'' @ drop 7 d1) p1 \<and> suffix (''/sha256-'' @ drop 7 d2) p2 \<and>
    p1 \<noteq> p2"
proof -
  define p1 where "p1 = (if files w1 (legacy_path mdir d1) \<noteq> None then legacy_path mdir d1
     else sharded_path mdir d1)"
  define p2 where "p2 = (if files w2 (legacy_path mdir d2) \<noteq> None then legacy_path mdir d2
     else sharded_path mdir d2)"
  have r1: "fst (GetBlobsPath (Inr mdir) w1 d1) = Return p1"
    unfolding p1_def by (rule GetBlobsPath_resolved) (rule assms)+
  have r2: "fst (GetBlobsPath (Inr mdir) w2 d2) = Return p2"
    unfolding p2_def by (rule GetBlobsPath_resolved) (rule assms)+
  have s1: "suffix (CHR ''/'' # canonical d1) p1"
    unfolding p1_def using blob_paths_tail [OF assms(1), of mdir] by simp
  have s2: "suffix (CHR ''/'' # canonical d2) p2"
    unfolding p2_def using blob_paths_tail [OF assms(2), of mdir] by simp
  have len: "length (canonical d1) = length (canonical d2)"
    using MatchDigest_shape(3) [OF assms(1)] MatchDigest_shape(3) [OF assms(2)]
    by (simp add: canonical_def)
  have "p1 \<noteq> p2"
  proof
    assume "p1 = p2"
    then have "CHR ''/'' # canonical d1 = CHR ''/'' # canonical d2"
      using s1 s2 len by (intro suffix_same_length [of _ p2]) simp_all
    then show False
      using case_variants_differ [OF assms(1-4)] by (simp add: canonical_def)
  qed
  then show ?thesis
    using r1 r2 s1 s2 by (auto simp: canonical_def)
qed

theorem GetBlobsPath_case_preserved_witness:
  "MatchDigest ''sha256:aaaaaaaaaaaaaaaaaaaaaaaaaaaaaaaaaaaaaaaaaaaaaaaaaaaaaaaaaaaaaaaa'' \<and>
   MatchDigest ''sha256:AAAAAAAAAAAAAAAAAAAAAAAAAAAAAAAAAAAAAAAAAAAAAAAAAAAAAAAAAAAAAAAA'' \<and>
   map lower_hex ''sha256:aaaaaaaaaaaaaaaaaaaaaaaaaaaaaaaaaaaaaaaaaaaaaaaaaaaaaaaaaaaaaaaa'' =
   map lower_hex ''sha256:AAAAAAAAAAAAAAAAAAAAAAAAAAAAAAAAAAAAAAAAAAAAAAAAAAAAAAAAAAAAAAAA'' \<and>
   creatable Map.empty ''/m/blobs/aa'' \<and> creatable Map.empty ''/m/blobs/AA'' \<and>
   (\<exists>p1 p2.
      fst (GetBlobsPath (Inr ''/m'') \<lparr>files = Map.empty, trace = []\<rparr>
        ''sha256:aaaaaaaaaaaaaaaaaaaaaaaaaaaaaaaaaaaaaaaaaaaaaaaaaaaaaaaaaaaaaaaa'') = Return p1 \<and>
      fst (GetBlobsPath (Inr ''/m'') \<lparr>files = Map.empty, trace = []\<rparr>
        ''sha256:AAAAAAAAAAAAAAAAAAAAAAAAAAAAAAAAAAAAAAAAAAAAAAAAAAAAAAAAAAAAAAAA'') = Return p2 \<and>
      p1 \<noteq> p2)"
proof -
  have l: "map lower_hex ''sha256:aaaaaaaaaaaaaaaaaaaaaaaaaaaaaaaaaaaaaaaaaaaaaaaaaaaaaaaaaaaaaaaa'' =
     map lower_hex ''sha256:AAAAAAAAAAAAAAAAAAAAAAAAAAAAAAAAAAAAAAAAAAAAAAAAAAAAAAAAAAAAAAAA''"
    by (simp add: lower_hex_def)
  have c: "creatable Map.empty ''/m/blobs/aa''" "creatable Map.empty ''/m/blobs/AA''"
    by (simp_all add: creatable_def example_mkdir)
  show ?thesis
    using GetBlobsPath_case_preserved [of
      "''sha256:aaaaaaaaaaaaaaaaaaaaaaaaaaaaaaaaaaaaaaaaaaaaaaaaaaaaaaaaaaaaaaaa''"
      "''sha256:AAAAAAAAAAAAAAAAAAAAAAAAAAAAAAAAAAAAAAAAAAAAAAAAAAAAAAAAAAAAAAAA''"
      "\<lparr>files = Map.empty, trace = []\<rparr>" "''/m''" "\<lparr>files = Map.empty, trace = []\<rparr>"]
      example_digest l c
    by (simp add: example_paths) blast
qed

subsection \<open>The manifest path resolver\<close>

text \<open>
  Claim C6. For an identity whose name the validity predicate rejects, the method
  \<open>GetManifestPath\<close> returns the error \<open>ErrNotExist\<close> (``file does not exist''),
  whatever the models root is, and leaves the world untouched; for a name that is valid,
  with the models root available, it returns the root joined with \<open>manifests\<close> and the
  file path encoding of the name.
\<close>

theorem ModelPath_GetManifestPath_cases:
  "(\<not> IsValid (name_of mp) \<longrightarrow>
      ModelPath_GetManifestPath IsValid Filepath Models mp w = (Error ErrNotExist, w)) \<and>
   (IsValid (name_of mp) \<and> Models = Inr mdir \<longrightarrow>
      ModelPath_GetManifestPath IsValid Filepath Models mp w =
        (Return (Join [mdir, ''manifests'', Filepath (name_of mp)]), w))"
  by (simp add: ModelPath_GetManifestPath_def)

theorem ModelPath_GetManifestPath_cases_witness:
  "ModelPath_GetManifestPath (\<lambda>n. NameModel n \<noteq> []) NameModel (Inr ''/m'')
      \<lparr>ProtocolScheme = ''https'', Registry = ''registry.goobla.ai'', Namespace = ''library'',
       Repository = [], Tag = ''latest''\<rparr> \<lparr>files = Map.empty, trace = []\<rparr> =
     (Error ErrNotExist, \<lparr>files = Map.empty, trace = []\<rparr>) \<and>
   ModelPath_GetManifestPath (\<lambda>n. NameModel n \<noteq> []) NameModel (Inr ''/m'')
      \<lparr>ProtocolScheme = ''https'', Registry = ''registry.goobla.ai'', Namespace = ''library'',
       Repository = ''llama'', Tag = ''latest''\<rparr> \<lparr>files = Map.empty, trace = []\<rparr> =
     (Return (Join [''/m'', ''manifests'', ''llama'']), \<lparr>files = Map.empty, trace = []\<rparr>)"
  using
    ModelPath_GetManifestPath_cases [of "\<lambda>n. NameModel n \<noteq> []"
      "\<lparr>ProtocolScheme = ''https'', Registry = ''registry.goobla.ai'', Namespace = ''library'',
        Repository = [], Tag = ''latest''\<rparr>" NameModel "Inr ''/m''"
      "\<lparr>files = Map.empty, trace = []\<rparr>" "''/m''"]
    ModelPath_GetManifestPath_cases [of "\<lambda>n. NameModel n \<noteq> []"
      "\<lparr>ProtocolScheme = ''https'', Registry = ''registry.goobla.ai'', Namespace = ''library'',
        Repository = ''llama'', Tag = ''latest''\<rparr>" NameModel "Inr ''/m''"
      "\<lparr>files = Map.empty, trace = []\<rparr>" "''/m''"]
  by (simp add: name_of_def)

end
